theory Spec2Isabelle
  imports Main "HOL-Library.AList"
begin

section \<open>Host objects\<close>

text \<open>
  The editor host supplies documents, regular expressions, the clock and the MD5 digest.
  A string is the list of its UTF-8 bytes, so \<open>Buffer.byteLength(text, 'utf8')\<close> is its
  length. Line numbers are natural numbers, timestamps (\<open>Date.now()\<close>, milliseconds) are
  integers. One synchronous call reads the clock once: the reading is the parameter \<open>now\<close>.
  The digest \<open>crypto.createHash('md5')\<close> is the parameter \<open>md5\<close> of every function that
  hashes content.
\<close>

datatype Position = Position nat nat

datatype Range = Range Position Position

datatype error = SyntaxError string | IllegalLine nat

text \<open>A compiled \<open>RegExp\<close> without flags: its source text and its (stateless) \<open>test\<close>.\<close>

record RegExp =
  source :: string
  test :: "string \<Rightarrow> bool"

text \<open>
  A \<open>vscode.TextDocument\<close>: \<open>docLines\<close> is the host's own line table, read by
  \<open>lineCount\<close> and \<open>lineAt\<close>; \<open>getText\<close> is the full text.
\<close>

record TextDocument =
  doc_uri :: string
  doc_version :: int
  getText :: string
  docLines :: "string list"

definition lineCount :: "TextDocument \<Rightarrow> nat" where
  "lineCount d = length (docLines d)"

text \<open>\<open>document.lineAt(n)\<close> throws when \<open>n\<close> is not a line of the document.\<close>

definition lineAt :: "TextDocument \<Rightarrow> nat \<Rightarrow> error + string" where
  "lineAt d n = (if n < lineCount d then Inr (docLines d ! n) else Inl (IllegalLine n))"

definition byteLength :: "string \<Rightarrow> nat" where
  "byteLength s = length s"

text \<open>\<open>String.prototype.split\<close> on a one-character separator: never the empty array.\<close>

fun js_split :: "char \<Rightarrow> string \<Rightarrow> string list" where
  "js_split c [] = [[]]"
| "js_split c (x # xs) =
     (if x = c then [] # js_split c xs
      else (case js_split c xs of
              [] \<Rightarrow> [[x]]
            | l # ls \<Rightarrow> (x # l) # ls))"

text \<open>\<open>Array.prototype.join\<close>.\<close>

fun js_join :: "string \<Rightarrow> string list \<Rightarrow> string" where
  "js_join sep [] = []"
| "js_join sep [x] = x"
| "js_join sep (x # y # ys) = x @ sep @ js_join sep (y # ys)"

text \<open>\<open>Array.prototype.indexOf\<close>: the first index, or \<open>-1\<close>.\<close>

fun indexOf :: "'a list \<Rightarrow> 'a \<Rightarrow> int" where
  "indexOf [] x = - 1"
| "indexOf (y # ys) x =
     (if y = x then 0
      else (let r = indexOf ys x in if r = - 1 then - 1 else r + 1))"

text \<open>A JavaScript \<open>Set\<close> of numbers, in insertion order.\<close>

definition set_add :: "nat \<Rightarrow> nat list \<Rightarrow> nat list" where
  "set_add x s = (if x \<in> set s then s else s @ [x])"

definition set_delete :: "nat \<Rightarrow> nat list \<Rightarrow> nat list" where
  "set_delete x s = removeAll x s"

section \<open>filter.ts\<close>

record EditorMetaData =
  md_lineCount :: nat
  isLargeFile :: bool
  isFocusMode :: bool
  isSelected :: bool

text \<open>
  \<open>EditorInfo\<close>: \<open>document\<close> is \<open>editor.document\<close>, \<open>ei_uri\<close> is \<open>uri.toString()\<close>.
\<close>

record EditorInfo =
  document :: TextDocument
  ei_uri :: string
  metaData :: EditorMetaData

record EditorCacheEntry =
  uri :: string
  version :: int
  size_bytes :: nat
  contentHash :: string
  lastModified :: int
  matchedRanges :: "Range list"
  matchedLineNumbers :: "nat list"
  count :: nat
  lastAnalyzed :: int

text \<open>
  The state of a \<open>Filter\<close> object. The three \<open>Map\<close>s are association lists in insertion
  order; \<open>Map.set\<close> is \<open>AList.update\<close>, \<open>Map.delete\<close> is \<open>AList.delete\<close>, \<open>Map.get\<close> is
  \<open>map_of\<close>. Colours, the icon and the decoration handle belong to the renderer and are
  left out, as are the calls to \<open>editor.setDecorations\<close>.
\<close>

record Filter =
  regex :: RegExp
  filter_id :: string
  isHighlighted :: bool
  isShown :: bool
  isExclude :: bool
  f_count :: nat
  activeEditors :: "(string \<times> EditorInfo) list"
  editorDecorations :: "(string \<times> Range list) list"
  editorCache :: "(string \<times> EditorCacheEntry) list"
  regexVersion :: nat

definition cacheMaxSize :: nat where
  "cacheMaxSize = 10"

definition cacheMaxAge :: int where
  "cacheMaxAge = 300000"

definition maxRanges :: nat where
  "maxRanges = 500"

text \<open>The constructor; \<open>fid\<close> is the result of \<open>generateId("filter")\<close>.\<close>

definition newFilter :: "RegExp \<Rightarrow> string \<Rightarrow> Filter" where
  "newFilter r fid =
     \<lparr> regex = r, filter_id = fid, isHighlighted = True, isShown = True, isExclude = False,
       f_count = 0, activeEditors = [], editorDecorations = [], editorCache = [],
       regexVersion = 0 \<rparr>"

definition clearCache :: "string option \<Rightarrow> Filter \<Rightarrow> Filter" where
  "clearCache editorUri f =
     (case editorUri of
        Some u \<Rightarrow> f\<lparr>editorCache := AList.delete u (editorCache f)\<rparr>
      | None \<Rightarrow> f\<lparr>editorCache := []\<rparr>)"

definition setRegex :: "RegExp \<Rightarrow> Filter \<Rightarrow> Filter" where
  "setRegex newRegex f =
     clearCache None (f\<lparr>regex := newRegex, regexVersion := regexVersion f + 1\<rparr>)"

definition set_isHighlighted :: "bool \<Rightarrow> Filter \<Rightarrow> Filter" where
  "set_isHighlighted v f = f\<lparr>isHighlighted := v\<rparr>"

definition set_isShown :: "bool \<Rightarrow> Filter \<Rightarrow> Filter" where
  "set_isShown v f = f\<lparr>isShown := v\<rparr>"

definition set_isExclude :: "bool \<Rightarrow> Filter \<Rightarrow> Filter" where
  "set_isExclude v f = f\<lparr>isExclude := v\<rparr>"

definition clearProcessing :: "string option \<Rightarrow> Filter \<Rightarrow> Filter" where
  "clearProcessing editorUri f =
     (case editorUri of
        Some u \<Rightarrow> f\<lparr>activeEditors := AList.delete u (activeEditors f),
                    editorDecorations := AList.delete u (editorDecorations f),
                    f_count := 0\<rparr>
      | None \<Rightarrow> f\<lparr>activeEditors := [], editorDecorations := [], f_count := 0\<rparr>)"

definition removeEditor :: "string \<Rightarrow> Filter \<Rightarrow> Filter" where
  "removeEditor editorUri f = clearCache (Some editorUri) (clearProcessing (Some editorUri) f)"

definition dispose :: "Filter \<Rightarrow> Filter" where
  "dispose f = clearCache None (clearProcessing None f)"

definition wholeLineRange :: "nat \<Rightarrow> Range" where
  "wholeLineRange lineIndex = Range (Position lineIndex 0) (Position lineIndex 0)"

text \<open>
  The scanning loop of \<open>computeAnalysis\<close>, from line \<open>lineIndex\<close> on; the accumulator is
  \<open>(matchedRanges, matchedLineNumbers, count)\<close>.
\<close>

fun computeAnalysis_loop ::
  "RegExp \<Rightarrow> string list \<Rightarrow> nat \<Rightarrow> Range list \<times> nat list \<times> nat \<Rightarrow> Range list \<times> nat list \<times> nat"
where
  "computeAnalysis_loop r [] lineIndex acc = acc"
| "computeAnalysis_loop r (line # rest) lineIndex (rs, ns, n) =
     (if test r line
      then computeAnalysis_loop r rest (lineIndex + 1)
             (rs @ [wholeLineRange lineIndex], ns @ [lineIndex], n + 1)
      else computeAnalysis_loop r rest (lineIndex + 1) (rs, ns, n))"

text \<open>The loop of \<open>computeOptimizedAnalysis\<close>: a range is pushed only below \<open>maxRanges\<close>.\<close>

fun computeOptimizedAnalysis_loop ::
  "RegExp \<Rightarrow> string list \<Rightarrow> nat \<Rightarrow> Range list \<times> nat list \<times> nat \<Rightarrow> Range list \<times> nat list \<times> nat"
where
  "computeOptimizedAnalysis_loop r [] lineIndex acc = acc"
| "computeOptimizedAnalysis_loop r (line # rest) lineIndex (rs, ns, n) =
     (if test r line
      then computeOptimizedAnalysis_loop r rest (lineIndex + 1)
             ((if length rs < maxRanges then rs @ [wholeLineRange lineIndex] else rs),
              ns @ [lineIndex], n + 1)
      else computeOptimizedAnalysis_loop r rest (lineIndex + 1) (rs, ns, n))"

definition computeAnalysis :: "(string \<Rightarrow> string) \<Rightarrow> int \<Rightarrow> EditorInfo \<Rightarrow> Filter \<Rightarrow> EditorCacheEntry" where
  "computeAnalysis md5 now editorInfo f =
     (let doc = document editorInfo;
          text = getText doc;
          (rs, ns, n) = computeAnalysis_loop (regex f) (js_split CHR 0x0A text) 0 ([], [], 0)
      in \<lparr> uri = doc_uri doc, version = doc_version doc, size_bytes = byteLength text,
           contentHash = md5 text, lastModified = now,
           matchedRanges = rs, matchedLineNumbers = ns, count = n, lastAnalyzed = 0 \<rparr>)"

definition computeOptimizedAnalysis :: "(string \<Rightarrow> string) \<Rightarrow> int \<Rightarrow> EditorInfo \<Rightarrow> Filter \<Rightarrow> EditorCacheEntry" where
  "computeOptimizedAnalysis md5 now editorInfo f =
     (let doc = document editorInfo;
          text = getText doc;
          (rs, ns, n) = computeOptimizedAnalysis_loop (regex f) (js_split CHR 0x0A text) 0 ([], [], 0)
      in \<lparr> uri = doc_uri doc, version = doc_version doc, size_bytes = byteLength text,
           contentHash = md5 text, lastModified = now,
           matchedRanges = rs, matchedLineNumbers = ns, count = n, lastAnalyzed = 0 \<rparr>)"

definition isCacheValid ::
  "(string \<Rightarrow> string) \<Rightarrow> int \<Rightarrow> EditorCacheEntry \<Rightarrow> TextDocument \<Rightarrow> EditorMetaData option \<Rightarrow> bool"
where
  "isCacheValid md5 now cacheEntry doc md =
     (if version cacheEntry \<noteq> doc_version doc then False
      else if size_bytes cacheEntry \<noteq> byteLength (getText doc) then False
      else if contentHash cacheEntry \<noteq> md5 (getText doc) then False
      else (let maxAge = (if (case md of Some m \<Rightarrow> isLargeFile m | None \<Rightarrow> False)
                          then cacheMaxAge div 2 else cacheMaxAge);
                cacheAge = now - lastAnalyzed cacheEntry
            in cacheAge \<le> maxAge))"

definition cleanupExpiredCache :: "int \<Rightarrow> Filter \<Rightarrow> Filter" where
  "cleanupExpiredCache now f =
     f\<lparr>editorCache :=
         fold (\<lambda>(u, entry) c. if now - lastAnalyzed entry > cacheMaxAge then AList.delete u c else c)
              (editorCache f) (editorCache f)\<rparr>"

definition enforceMaxCacheSize :: "Filter \<Rightarrow> Filter" where
  "enforceMaxCacheSize f =
     (let c = editorCache f in
      if length c \<le> cacheMaxSize then f
      else (let entries = sort_key (\<lambda>(u, e). lastAnalyzed e) c;
                toRemove = take (length c - cacheMaxSize) entries
            in f\<lparr>editorCache := fold (\<lambda>(u, e) c'. AList.delete u c') toRemove c\<rparr>))"

definition getCachedAnalysisOrCompute ::
  "(string \<Rightarrow> string) \<Rightarrow> int \<Rightarrow> EditorInfo \<Rightarrow> Filter \<Rightarrow> EditorCacheEntry \<times> Filter"
where
  "getCachedAnalysisOrCompute md5 now editorInfo f =
     (let doc = document editorInfo;
          editorUri = doc_uri doc;
          f1 = cleanupExpiredCache now f;
          miss = (let newEntry = (if isLargeFile (metaData editorInfo)
                                  then computeOptimizedAnalysis md5 now editorInfo f1
                                  else computeAnalysis md5 now editorInfo f1);
                      newEntry' = newEntry\<lparr>lastAnalyzed := now\<rparr>;
                      f2 = f1\<lparr>editorCache := AList.update editorUri newEntry' (editorCache f1)\<rparr>
                  in (newEntry', enforceMaxCacheSize f2))
      in case map_of (editorCache f1) editorUri of
           Some cachedEntry \<Rightarrow>
             if isCacheValid md5 now cachedEntry doc (Some (metaData editorInfo))
             then (cachedEntry, f1) else miss
         | None \<Rightarrow> miss)"

definition processEditor :: "(string \<Rightarrow> string) \<Rightarrow> int \<Rightarrow> EditorInfo \<Rightarrow> Filter \<Rightarrow> Filter" where
  "processEditor md5 now editorInfo f =
     (let editorUri = ei_uri editorInfo;
          f1 = f\<lparr>activeEditors := AList.update editorUri editorInfo (activeEditors f)\<rparr>;
          (cacheEntry, f2) = getCachedAnalysisOrCompute md5 now editorInfo f1;
          f3 = f2\<lparr>editorDecorations :=
                    AList.update editorUri (matchedRanges cacheEntry) (editorDecorations f2)\<rparr>
      in if isSelected (metaData editorInfo) then f3\<lparr>f_count := count cacheEntry\<rparr> else f3)"

text \<open>\<open>getMatchedLineNumbers(editorUri)\<close>, the branch with an argument.\<close>

definition getMatchedLineNumbersOf ::
  "(string \<Rightarrow> string) \<Rightarrow> int \<Rightarrow> string \<Rightarrow> Filter \<Rightarrow> nat list \<times> Filter"
where
  "getMatchedLineNumbersOf md5 now editorUri f =
     (case map_of (activeEditors f) editorUri of
        None \<Rightarrow> ([], f)
      | Some editorInfo \<Rightarrow>
          (let recompute = (let (e, f') = getCachedAnalysisOrCompute md5 now editorInfo f
                            in (matchedLineNumbers e, f'))
           in case map_of (editorCache f) editorUri of
                Some cacheEntry \<Rightarrow>
                  if isCacheValid md5 now cacheEntry (document editorInfo) (Some (metaData editorInfo))
                  then (matchedLineNumbers cacheEntry, f) else recompute
              | None \<Rightarrow> recompute))"

text \<open>\<open>getMatchedLineNumbers()\<close>: the concatenation over all active editors.\<close>

fun getMatchedLineNumbers_all ::
  "(string \<Rightarrow> string) \<Rightarrow> int \<Rightarrow> string list \<Rightarrow> nat list \<Rightarrow> Filter \<Rightarrow> nat list \<times> Filter"
where
  "getMatchedLineNumbers_all md5 now [] allLineNumbers f = (allLineNumbers, f)"
| "getMatchedLineNumbers_all md5 now (u # us) allLineNumbers f =
     (let (ns, f') = getMatchedLineNumbersOf md5 now u f
      in getMatchedLineNumbers_all md5 now us (allLineNumbers @ ns) f')"

definition getMatchedLineNumbers ::
  "(string \<Rightarrow> string) \<Rightarrow> int \<Rightarrow> string option \<Rightarrow> Filter \<Rightarrow> nat list \<times> Filter"
where
  "getMatchedLineNumbers md5 now editorUri f =
     (case editorUri of
        Some u \<Rightarrow> getMatchedLineNumbersOf md5 now u f
      | None \<Rightarrow> getMatchedLineNumbers_all md5 now (map fst (activeEditors f)) [] f)"

section \<open>focusProvider.ts\<close>

text \<open>
  A \<open>Group\<close> and the \<open>Project\<close> share their \<open>Filter\<close> objects. The objects live in the
  project's \<open>filters\<close> map (the store); a group holds the ids of its members.
\<close>

record Group =
  group_filters :: "string list"
  g_isHighlighted :: bool
  g_isShown :: bool
  group_name :: string
  group_id :: string

record Project =
  filters :: "(string \<times> Filter) list"
  groups :: "(string \<times> Group) list"
  project_name :: string
  project_id :: string
  selected :: bool

record FocusProvider =
  project :: "Project option"

text \<open>
  \<open>getActiveFilters\<close>: the two arrays hold references to filters of the project, here
  their keys in the store.
\<close>

definition getActiveFilters :: "FocusProvider \<Rightarrow> string list \<times> string list" where
  "getActiveFilters fp =
     (case project fp of
        None \<Rightarrow> ([], [])
      | Some p \<Rightarrow>
          fold (\<lambda>(k, flt) (positiveFilters, excludeFilters).
                  if isShown flt then
                    (if isExclude flt then (positiveFilters, excludeFilters @ [k])
                     else (positiveFilters @ [k], excludeFilters))
                  else (positiveFilters, excludeFilters))
               (filters p) ([], []))"

text \<open>
  \<open>positiveFilters.forEach\<close>: every filter is asked for its matched lines (which may
  refresh its cache) and the lines are added to \<open>resultLines\<close>.
\<close>

fun addPositive ::
  "(string \<Rightarrow> string) \<Rightarrow> int \<Rightarrow> string \<Rightarrow> string list \<Rightarrow> nat list \<times> (string \<times> Filter) list
     \<Rightarrow> nat list \<times> (string \<times> Filter) list"
where
  "addPositive md5 now originalUri [] (resultLines, store) = (resultLines, store)"
| "addPositive md5 now originalUri (k # ks) (resultLines, store) =
     (case map_of store k of
        None \<Rightarrow> addPositive md5 now originalUri ks (resultLines, store)
      | Some flt \<Rightarrow>
          (let (lineNumbers, flt') = getMatchedLineNumbers md5 now (Some originalUri) flt
           in addPositive md5 now originalUri ks
                (fold set_add lineNumbers resultLines, AList.update k flt' store)))"

text \<open>\<open>excludeFilters.forEach\<close>: the matched lines are deleted from \<open>resultLines\<close>.\<close>

fun removeExcluded ::
  "(string \<Rightarrow> string) \<Rightarrow> int \<Rightarrow> string \<Rightarrow> string list \<Rightarrow> nat list \<times> (string \<times> Filter) list
     \<Rightarrow> nat list \<times> (string \<times> Filter) list"
where
  "removeExcluded md5 now originalUri [] (resultLines, store) = (resultLines, store)"
| "removeExcluded md5 now originalUri (k # ks) (resultLines, store) =
     (case map_of store k of
        None \<Rightarrow> removeExcluded md5 now originalUri ks (resultLines, store)
      | Some flt \<Rightarrow>
          (let (excludedLines, flt') = getMatchedLineNumbers md5 now (Some originalUri) flt
           in removeExcluded md5 now originalUri ks
                (fold set_delete excludedLines resultLines, AList.update k flt' store)))"

definition store_of :: "FocusProvider \<Rightarrow> (string \<times> Filter) list" where
  "store_of fp = (case project fp of None \<Rightarrow> [] | Some p \<Rightarrow> filters p)"

definition with_store :: "FocusProvider \<Rightarrow> (string \<times> Filter) list \<Rightarrow> FocusProvider" where
  "with_store fp store =
     (case project fp of None \<Rightarrow> fp | Some p \<Rightarrow> fp\<lparr>project := Some (p\<lparr>filters := store\<rparr>)\<rparr>)"

text \<open>The part that \<open>getVisibleLines\<close> and \<open>generateFilteredContent\<close> have in common.\<close>

definition resultLinesOf ::
  "(string \<Rightarrow> string) \<Rightarrow> int \<Rightarrow> FocusProvider \<Rightarrow> string \<Rightarrow> TextDocument
     \<Rightarrow> nat list \<times> (string \<times> Filter) list"
where
  "resultLinesOf md5 now fp originalUri doc =
     (let (positiveFilters, excludeFilters) = getActiveFilters fp in
      if length positiveFilters > 0
      then addPositive md5 now originalUri positiveFilters ([], store_of fp)
      else removeExcluded md5 now originalUri excludeFilters
             (fold set_add [0 ..< lineCount doc] [], store_of fp))"

definition getVisibleLines ::
  "(string \<Rightarrow> string) \<Rightarrow> int \<Rightarrow> FocusProvider \<Rightarrow> string \<Rightarrow> TextDocument \<Rightarrow> nat list \<times> FocusProvider"
where
  "getVisibleLines md5 now fp originalUri originalDoc =
     (let (resultLines, store) = resultLinesOf md5 now fp originalUri originalDoc
      in (sort resultLines, with_store fp store))"

text \<open>\<open>sortedLines.forEach\<close> of \<open>generateFilteredContent\<close>; \<open>lineAt\<close> may throw.\<close>

fun pushLines :: "TextDocument \<Rightarrow> nat list \<Rightarrow> string list \<Rightarrow> error + string list" where
  "pushLines doc [] resultArr = Inr resultArr"
| "pushLines doc (lineNum # rest) resultArr =
     (if lineNum < lineCount doc
      then (case lineAt doc lineNum of
              Inl e \<Rightarrow> Inl e
            | Inr t \<Rightarrow> pushLines doc rest (resultArr @ [t]))
      else pushLines doc rest resultArr)"

definition generateFilteredContent ::
  "(string \<Rightarrow> string) \<Rightarrow> int \<Rightarrow> FocusProvider \<Rightarrow> string \<Rightarrow> TextDocument
     \<Rightarrow> (error + string) \<times> FocusProvider"
where
  "generateFilteredContent md5 now fp originalUri doc =
     (let (resultLines, store) = resultLinesOf md5 now fp originalUri doc;
          sortedLines = sort resultLines
      in (case pushLines doc sortedLines [[]] of
            Inl e \<Rightarrow> Inl e
          | Inr resultArr \<Rightarrow> Inr (js_join [CHR 0x0A] resultArr),
          with_store fp store))"

section \<open>commands.ts\<close>

definition buildFocusDecorationRanges :: "nat list \<Rightarrow> nat list \<Rightarrow> Range list" where
  "buildFocusDecorationRanges matchedLines visibleLines =
     fold (\<lambda>originalLineNum ranges.
             (let focusLineIndex = indexOf visibleLines originalLineNum in
              if focusLineIndex \<noteq> - 1
              then (let focusLineNum = nat (focusLineIndex + 1)
                    in ranges @ [Range (Position focusLineNum 0) (Position focusLineNum 0)])
              else ranges))
          matchedLines []"

text \<open>
  Of the extension's \<open>State\<close> only the selected project is modelled: \<open>addFilter\<close> and
  \<open>editFilter\<close> reach nothing else. Saving the settings and redrawing are left out.
\<close>

record State =
  selectedProject :: "Project option"

text \<open>
  \<open>refreshEditors\<close> with \<open>applyFilterHighlights\<close>: every filter processes every visible
  editor; \<open>editors\<close> are the \<open>EditorInfo\<close>s of \<open>vscode.window.visibleTextEditors\<close>.
\<close>

definition applyFilterHighlights ::
  "(string \<Rightarrow> string) \<Rightarrow> int \<Rightarrow> EditorInfo list \<Rightarrow> (string \<times> Filter) list \<Rightarrow> (string \<times> Filter) list"
where
  "applyFilterHighlights md5 now editors fs =
     fold (\<lambda>editor fs'. map (\<lambda>(k, flt). (k, processEditor md5 now editor flt)) fs') editors fs"

definition refreshEditors :: "(string \<Rightarrow> string) \<Rightarrow> int \<Rightarrow> EditorInfo list \<Rightarrow> State \<Rightarrow> State" where
  "refreshEditors md5 now editors state =
     (case selectedProject state of
        None \<Rightarrow> state
      | Some p \<Rightarrow>
          if length (filters p) = 0 then state
          else state\<lparr>selectedProject :=
                      Some (p\<lparr>filters := applyFilterHighlights md5 now editors (filters p)\<rparr>)\<rparr>)"

text \<open>
  \<open>addFilter\<close>, the callback of the input box: \<open>regexStr\<close> is the user's input
  (\<open>None\<close> for \<open>undefined\<close>), \<open>compile\<close> is \<open>new RegExp\<close> (\<open>None\<close> when it throws a
  \<open>SyntaxError\<close>), \<open>fid\<close> is the fresh id of the new filter. The exception is not caught.
\<close>

definition addFilter ::
  "(string \<Rightarrow> RegExp option) \<Rightarrow> (string \<Rightarrow> string) \<Rightarrow> int \<Rightarrow> EditorInfo list \<Rightarrow> string
     \<Rightarrow> string \<Rightarrow> string option \<Rightarrow> State \<Rightarrow> error + State"
where
  "addFilter compile md5 now editors fid treeItemId regexStr state =
     (let group = (case selectedProject state of
                     None \<Rightarrow> None
                   | Some p \<Rightarrow> map_of (groups p) treeItemId)
      in case (regexStr, group, selectedProject state) of
           (Some s, Some g, Some p) \<Rightarrow>
             if s = [] then Inr state
             else (case compile s of
                     None \<Rightarrow> Inl (SyntaxError s)
                   | Some r \<Rightarrow>
                       (let flt = newFilter r fid;
                            g' = g\<lparr>group_filters :=
                                     (if fid \<in> set (group_filters g) then group_filters g
                                      else group_filters g @ [fid])\<rparr>;
                            p' = p\<lparr>groups := AList.update treeItemId g' (groups p),
                                   filters := AList.update fid flt (filters p)\<rparr>
                        in Inr (refreshEditors md5 now editors (state\<lparr>selectedProject := Some p'\<rparr>))))
         | _ \<Rightarrow> Inr state)"

text \<open>
  \<open>editFilter\<close>: the second component is the error shown by \<open>showErrorMessage\<close> in the
  \<open>catch\<close> block, if any.
\<close>

definition editFilter ::
  "(string \<Rightarrow> RegExp option) \<Rightarrow> (string \<Rightarrow> string) \<Rightarrow> int \<Rightarrow> EditorInfo list
     \<Rightarrow> string \<Rightarrow> string option \<Rightarrow> State \<Rightarrow> State \<times> error option"
where
  "editFilter compile md5 now editors treeItemId regexStr state =
     (case selectedProject state of
        None \<Rightarrow> (state, None)
      | Some p \<Rightarrow>
          (case map_of (filters p) treeItemId of
             None \<Rightarrow> (state, None)
           | Some flt \<Rightarrow>
               (case regexStr of
                  None \<Rightarrow> (state, None)
                | Some s \<Rightarrow>
                    if s = source (regex flt) then (state, None)
                    else (case compile s of
                            None \<Rightarrow> (state, Some (SyntaxError s))
                          | Some r \<Rightarrow>
                              (let p' = p\<lparr>filters :=
                                           AList.update treeItemId (setRegex r flt) (filters p)\<rparr>
                               in (refreshEditors md5 now editors
                                     (state\<lparr>selectedProject := Some p'\<rparr>), None))))))"

section \<open>Specification-level notions\<close>

text \<open>The numbers of the lines of \<open>ls\<close> that match, the first line being number \<open>i\<close>.\<close>

fun matchesFrom :: "RegExp \<Rightarrow> string list \<Rightarrow> nat \<Rightarrow> nat list" where
  "matchesFrom r [] i = []"
| "matchesFrom r (l # ls) i = (if test r l then i # matchesFrom r ls (i + 1) else matchesFrom r ls (i + 1))"

text \<open>
  A from-scratch scan as the specification words it: the numbers of the lines of the text,
  split at line feeds, that the pattern matches, in ascending order.
\<close>

definition spec_matchedLines :: "RegExp \<Rightarrow> string \<Rightarrow> nat list" where
  "spec_matchedLines r text =
     (let ls = js_split CHR 0x0A text in [i \<leftarrow> [0 ..< length ls]. test r (ls ! i)])"

text \<open>The two roles of a shown filter in the focus view.\<close>

definition isPositive :: "Filter \<Rightarrow> bool" where
  "isPositive f = (isShown f \<and> \<not> isExclude f)"

definition isNegative :: "Filter \<Rightarrow> bool" where
  "isNegative f = (isShown f \<and> isExclude f)"

text \<open>What the filter stored under key \<open>k\<close> answers for document \<open>u\<close>.\<close>

definition linesOf :: "(string \<Rightarrow> string) \<Rightarrow> int \<Rightarrow> string \<Rightarrow> (string \<times> Filter) list \<Rightarrow> string \<Rightarrow> nat list" where
  "linesOf md5 now u store k =
     (case map_of store k of
        None \<Rightarrow> []
      | Some f \<Rightarrow> fst (getMatchedLineNumbers md5 now (Some u) f))"

section \<open>Notions for the match cache\<close>

text \<open>The entry that a cache miss stores and returns.\<close>

definition freshEntry :: "(string \<Rightarrow> string) \<Rightarrow> int \<Rightarrow> EditorInfo \<Rightarrow> Filter \<Rightarrow> EditorCacheEntry" where
  "freshEntry md5 now ei f =
     (if isLargeFile (metaData ei) then computeOptimizedAnalysis md5 now ei f
      else computeAnalysis md5 now ei f)\<lparr>lastAnalyzed := now\<rparr>"

text \<open>
  The cache after the sweep with the returned entry stored under the document's key, before
  the capacity is enforced.
\<close>

definition cacheBeforeEviction ::
  "(string \<Rightarrow> string) \<Rightarrow> int \<Rightarrow> EditorInfo \<Rightarrow> Filter \<Rightarrow> (string \<times> EditorCacheEntry) list"
where
  "cacheBeforeEviction md5 now ei f =
     AList.update (doc_uri (document ei)) (fst (getCachedAnalysisOrCompute md5 now ei f))
       (editorCache (cleanupExpiredCache now f))"

text \<open>
  An entry is \<open>entryOf\<close> a pattern when it records the scan of some text with that pattern,
  under that text's size and digest.
\<close>

definition entryOf :: "(string \<Rightarrow> string) \<Rightarrow> RegExp \<Rightarrow> EditorCacheEntry \<Rightarrow> bool" where
  "entryOf md5 r e =
     (\<exists>t. contentHash e = md5 t \<and> size_bytes e = byteLength t
          \<and> matchedLineNumbers e = spec_matchedLines r t
          \<and> count e = length (spec_matchedLines r t))"

text \<open>
  The invariant of the cache: distinct keys, at most \<open>cacheMaxSize\<close> entries, and every entry
  was computed with the filter's current pattern.
\<close>

definition cacheInv :: "(string \<Rightarrow> string) \<Rightarrow> Filter \<Rightarrow> bool" where
  "cacheInv md5 f =
     (distinct (map fst (editorCache f)) \<and> length (editorCache f) \<le> cacheMaxSize
      \<and> (\<forall>kv \<in> set (editorCache f). entryOf md5 (regex f) (snd kv)))"

text \<open>
  The documents held by the active editors are live objects of the host: between two calls
  of the filter the host may change them. The keys and the URIs stay.
\<close>

definition sameEditors :: "(string \<times> EditorInfo) list \<Rightarrow> (string \<times> EditorInfo) list \<Rightarrow> bool" where
  "sameEditors as bs =
     list_all2 (\<lambda>a b. fst a = fst b \<and> ei_uri (snd a) = ei_uri (snd b)
                       \<and> doc_uri (document (snd a)) = doc_uri (document (snd b))) as bs"

text \<open>
  The states of a \<open>Filter\<close> object that its public operations produce from the constructor,
  at any clock readings and on any documents, with host edits in between.
\<close>

inductive reachable :: "(string \<Rightarrow> string) \<Rightarrow> Filter \<Rightarrow> bool" for md5 :: "string \<Rightarrow> string" where
  r_new: "reachable md5 (newFilter r fid)"
| r_processEditor: "reachable md5 f \<Longrightarrow> reachable md5 (processEditor md5 now ei f)"
| r_getMatchedLineNumbers:
    "reachable md5 f \<Longrightarrow> reachable md5 (snd (getMatchedLineNumbers md5 now u f))"
| r_setRegex: "reachable md5 f \<Longrightarrow> reachable md5 (setRegex r f)"
| r_set_isHighlighted: "reachable md5 f \<Longrightarrow> reachable md5 (set_isHighlighted v f)"
| r_set_isShown: "reachable md5 f \<Longrightarrow> reachable md5 (set_isShown v f)"
| r_set_isExclude: "reachable md5 f \<Longrightarrow> reachable md5 (set_isExclude v f)"
| r_clearProcessing: "reachable md5 f \<Longrightarrow> reachable md5 (clearProcessing u f)"
| r_removeEditor: "reachable md5 f \<Longrightarrow> reachable md5 (removeEditor k f)"
| r_clearCache: "reachable md5 f \<Longrightarrow> reachable md5 (clearCache u f)"
| r_dispose: "reachable md5 f \<Longrightarrow> reachable md5 (dispose f)"
| r_hostEdit:
    "reachable md5 f \<Longrightarrow> sameEditors aes (activeEditors f) \<Longrightarrow> reachable md5 (f\<lparr>activeEditors := aes\<rparr>)"

section \<open>Example data\<close>

text \<open>
  A toy pattern language for concrete runs: a pattern matches the lines it is a prefix of,
  and the pattern \<open>(\<close> does not compile. The example digest is the content itself. The
  example document has the three lines \<open>x\<close>, \<open>ab\<close>, \<open>ac\<close>.
\<close>

definition literal :: "string \<Rightarrow> RegExp" where
  "literal s = \<lparr> source = s, test = (\<lambda>l. take (length s) l = s) \<rparr>"

definition example_compile :: "string \<Rightarrow> RegExp option" where
  "example_compile s = (if s = ''('' then None else Some (literal s))"

definition example_md5 :: "string \<Rightarrow> string" where
  "example_md5 s = s"

definition example_doc :: TextDocument where
  "example_doc =
     \<lparr> doc_uri = ''a.log'', doc_version = 1,
       getText = ''x'' @ [CHR 0x0A] @ ''ab'' @ [CHR 0x0A] @ ''ac'',
       docLines = [''x'', ''ab'', ''ac''] \<rparr>"

definition example_editor :: EditorInfo where
  "example_editor =
     \<lparr> document = example_doc, ei_uri = ''a.log'',
       metaData = \<lparr> md_lineCount = 3, isLargeFile = False, isFocusMode = False, isSelected = True \<rparr> \<rparr>"

definition example_include :: Filter where
  "example_include = processEditor example_md5 0 example_editor (newFilter (literal ''ab'') ''filter-1'')"

definition example_exclude :: Filter where
  "example_exclude =
     set_isExclude True (processEditor example_md5 0 example_editor (newFilter (literal ''a'') ''filter-2''))"

definition example_project :: Project where
  "example_project =
     \<lparr> filters = [(''filter-1'', example_include), (''filter-2'', example_exclude)],
       groups = [(''group-1'', \<lparr> group_filters = [''filter-1'', ''filter-2''], g_isHighlighted = True,
                                  g_isShown = True, group_name = ''g'', group_id = ''group-1'' \<rparr>)],
       project_name = ''p'', project_id = ''p'', selected = True \<rparr>"

definition example_provider :: FocusProvider where
  "example_provider = \<lparr> project = Some example_project \<rparr>"

definition example_exclude_only :: FocusProvider where
  "example_exclude_only =
     \<lparr> project = Some (example_project\<lparr>filters :=
         [(''filter-1'', set_isShown False example_include), (''filter-2'', example_exclude)]\<rparr>) \<rparr>"

definition example_all_hidden :: FocusProvider where
  "example_all_hidden =
     \<lparr> project = Some (example_project\<lparr>filters :=
         [(''filter-1'', set_isShown False example_include),
          (''filter-2'', set_isShown False example_exclude)]\<rparr>) \<rparr>"

definition example_state :: State where
  "example_state = \<lparr> selectedProject = Some example_project \<rparr>"


definition example_large_editor :: EditorInfo where
  "example_large_editor =
     \<lparr> document = example_doc\<lparr>doc_uri := ''big.log''\<rparr>, ei_uri = ''big.log'',
       metaData = \<lparr> md_lineCount = 3, isLargeFile = True, isFocusMode = False, isSelected = False \<rparr> \<rparr>"

definition example_large_cached :: Filter where
  "example_large_cached =
     processEditor example_md5 0 example_large_editor (newFilter (literal ''ab'') ''filter-1'')"

definition example_editor_n :: "nat \<Rightarrow> EditorInfo" where
  "example_editor_n n =
     example_editor\<lparr>document := example_doc\<lparr>doc_uri := replicate (Suc n) CHR ''d''\<rparr>,
                    ei_uri := replicate (Suc n) CHR ''d''\<rparr>"

definition example_filled :: "nat \<Rightarrow> Filter" where
  "example_filled n =
     fold (\<lambda>i f. processEditor example_md5 (int i) (example_editor_n i) f) [0 ..< n]
       (newFilter (literal ''ab'') ''filter-1'')"

text \<open>The example document after it shrank to its first line.\<close>

definition example_shrunk_doc :: TextDocument where
  "example_shrunk_doc = example_doc\<lparr>doc_version := 2, getText := ''x'', docLines := [''x'']\<rparr>"

section \<open>The MD5 digest\<close>

text \<open>
  The digest that \<open>crypto.createHash('md5')\<close> computes (RFC 1321), on byte strings and with
  hexadecimal output. A 32-bit word is an integer below \<open>2 ^ 32\<close>. It stands for the
  parameter \<open>md5\<close> in runs on real digests.
\<close>

unbundle bit_operations_syntax























section \<open>The two analyses\<close>

lemma matchesFrom_filter:
  "matchesFrom r ls i = [j \<leftarrow> [i ..< i + length ls]. test r (ls ! (j - i))]"
proof (induction ls arbitrary: i)
  case Nil
  then show ?case by simp
next
  case (Cons l ls)
  have upt: "[i ..< i + length (l # ls)] = i # [Suc i ..< Suc i + length ls]"
    by (simp add: upt_conv_Cons del: upt_Suc)
  have tl: "[j \<leftarrow> [Suc i ..< Suc i + length ls]. test r ((l # ls) ! (j - i))]
           = [j \<leftarrow> [Suc i ..< Suc i + length ls]. test r (ls ! (j - Suc i))]"
  proof (rule filter_cong [OF refl])
    fix j assume "j \<in> set [Suc i ..< Suc i + length ls]"
    then have "j - i = Suc (j - Suc i)" by auto
    then show "test r ((l # ls) ! (j - i)) = test r (ls ! (j - Suc i))" by simp
  qed
  show ?case
    unfolding upt using Cons.IH [of "Suc i"] tl by simp
qed

lemma computeAnalysis_loop_eq:
  "computeAnalysis_loop r ls i (rs, ns, n) =
     (rs @ map wholeLineRange (matchesFrom r ls i), ns @ matchesFrom r ls i, n + length (matchesFrom r ls i))"
  by (induction ls arbitrary: i rs ns n) simp_all

lemma computeOptimizedAnalysis_loop_eq:
  "computeOptimizedAnalysis_loop r ls i (rs, ns, n) =
     (rs @ take (maxRanges - length rs) (map wholeLineRange (matchesFrom r ls i)),
      ns @ matchesFrom r ls i, n + length (matchesFrom r ls i))"
  by (induction ls arbitrary: i rs ns n) (simp_all add: take_Cons')

lemma matchedLineNumbers_computeAnalysis:
  "matchedLineNumbers (computeAnalysis md5 now ei f) = spec_matchedLines (regex f) (getText (document ei))"
  by (simp add: computeAnalysis_def computeAnalysis_loop_eq spec_matchedLines_def Let_def matchesFrom_filter)

lemma matchedLineNumbers_computeOptimizedAnalysis:
  "matchedLineNumbers (computeOptimizedAnalysis md5 now ei f) = spec_matchedLines (regex f) (getText (document ei))"
  by (simp add: computeOptimizedAnalysis_def computeOptimizedAnalysis_loop_eq spec_matchedLines_def Let_def matchesFrom_filter)

lemma count_computeAnalysis:
  "count (computeAnalysis md5 now ei f) = length (spec_matchedLines (regex f) (getText (document ei)))"
  by (simp add: computeAnalysis_def computeAnalysis_loop_eq spec_matchedLines_def Let_def matchesFrom_filter)

lemma computeOptimizedAnalysis_eq:
  "computeOptimizedAnalysis md5 now ei f =
     (computeAnalysis md5 now ei f)\<lparr>matchedRanges := take maxRanges (matchedRanges (computeAnalysis md5 now ei f))\<rparr>"
  by (simp add: computeOptimizedAnalysis_def computeAnalysis_def computeOptimizedAnalysis_loop_eq computeAnalysis_loop_eq Let_def)

text \<open>
  C4. The degraded (large-file) analysis and the standard analysis of the same document give
  the same matched line numbers and the same count, namely those of a full scan; the degraded
  one differs only in its decoration ranges, which are the first 500 of the standard ones.
  The matched-line list is never truncated.
\<close>

theorem degraded_analysis_keeps_matched_lines:
  "matchedLineNumbers (computeOptimizedAnalysis md5 now ei f) = matchedLineNumbers (computeAnalysis md5 now ei f)
   \<and> count (computeOptimizedAnalysis md5 now ei f) = count (computeAnalysis md5 now ei f)
   \<and> matchedLineNumbers (computeOptimizedAnalysis md5 now ei f) = spec_matchedLines (regex f) (getText (document ei))
   \<and> count (computeOptimizedAnalysis md5 now ei f) = length (spec_matchedLines (regex f) (getText (document ei)))
   \<and> matchedRanges (computeOptimizedAnalysis md5 now ei f) = take 500 (matchedRanges (computeAnalysis md5 now ei f))
   \<and> length (matchedRanges (computeOptimizedAnalysis md5 now ei f)) \<le> 500
   \<and> computeOptimizedAnalysis md5 now ei f =
       (computeAnalysis md5 now ei f)\<lparr>matchedRanges := take 500 (matchedRanges (computeAnalysis md5 now ei f))\<rparr>"
  using computeOptimizedAnalysis_eq [of md5 now ei f]
  by (simp add: matchedLineNumbers_computeAnalysis count_computeAnalysis maxRanges_def)

section \<open>The match cache\<close>

lemma fold_delete_if:
  "fold (\<lambda>(u, entry) c'. if P entry then AList.delete u c' else c') xs c
   = [kv \<leftarrow> c. fst kv \<notin> fst ` {x \<in> set xs. P (snd x)}]"
proof (induction xs arbitrary: c)
  case Nil
  then show ?case by simp
next
  case (Cons x xs)
  obtain u e where x: "x = (u, e)" by (cases x)
  show ?case
  proof (cases "P e")
    case True
    have "fold (\<lambda>(u, entry) c'. if P entry then AList.delete u c' else c') (x # xs) c
        = [kv \<leftarrow> AList.delete u c. fst kv \<notin> fst ` {x \<in> set xs. P (snd x)}]"
      using x True Cons.IH by simp
    also have "\<dots> = [kv \<leftarrow> c. fst kv \<notin> fst ` {y \<in> set (x # xs). P (snd y)}]"
    proof -
      have "fst ` {y \<in> set (x # xs). P (snd y)} = insert u (fst ` {y \<in> set xs. P (snd y)})"
        using x True by force
      then show ?thesis
        by (auto simp: AList.delete_eq intro!: filter_cong)
    qed
    finally show ?thesis .
  next
    case False
    have "{y \<in> set (x # xs). P (snd y)} = {y \<in> set xs. P (snd y)}"
      using x False by auto
    then show ?thesis using x False Cons.IH by simp
  qed
qed

lemma distinct_fst_eq:
  "distinct (map fst c) \<Longrightarrow> (k, a) \<in> set c \<Longrightarrow> (k, b) \<in> set c \<Longrightarrow> a = b"
  by (metis map_of_is_SomeI option.inject)

lemma cleanup_filter:
  assumes "distinct (map fst (editorCache f))"
  shows "editorCache (cleanupExpiredCache now f)
       = [kv \<leftarrow> editorCache f. now - lastAnalyzed (snd kv) \<le> cacheMaxAge]"
proof -
  let ?c = "editorCache f"
  let ?P = "\<lambda>e. now - lastAnalyzed e > cacheMaxAge"
  have "editorCache (cleanupExpiredCache now f) = [kv \<leftarrow> ?c. fst kv \<notin> fst ` {x \<in> set ?c. ?P (snd x)}]"
    by (simp add: cleanupExpiredCache_def fold_delete_if)
  also have "\<dots> = [kv \<leftarrow> ?c. now - lastAnalyzed (snd kv) \<le> cacheMaxAge]"
  proof (rule filter_cong [OF refl])
    fix kv assume kv: "kv \<in> set ?c"
    show "(fst kv \<notin> fst ` {x \<in> set ?c. ?P (snd x)}) = (now - lastAnalyzed (snd kv) \<le> cacheMaxAge)"
    proof
      assume "fst kv \<notin> fst ` {x \<in> set ?c. ?P (snd x)}"
      with kv have "\<not> ?P (snd kv)" by force
      then show "now - lastAnalyzed (snd kv) \<le> cacheMaxAge" by simp
    next
      assume le: "now - lastAnalyzed (snd kv) \<le> cacheMaxAge"
      show "fst kv \<notin> fst ` {x \<in> set ?c. ?P (snd x)}"
      proof
        assume "fst kv \<in> fst ` {x \<in> set ?c. ?P (snd x)}"
        then obtain x where x: "x \<in> set ?c" "?P (snd x)" "fst x = fst kv" by auto
        have "snd x = snd kv"
          using distinct_fst_eq [OF assms, of "fst kv" "snd x" "snd kv"] x kv
          by (metis prod.collapse)
        with x le show False by simp
      qed
    qed
  qed
  finally show ?thesis .
qed

lemma cleanup_other_fields:
  "regex (cleanupExpiredCache now f) = regex f"
  "activeEditors (cleanupExpiredCache now f) = activeEditors f"
  by (simp_all add: cleanupExpiredCache_def)

lemma fold_delete_keys:
  "fold (\<lambda>(u, e) c'. AList.delete u c') xs c = [kv \<leftarrow> c. fst kv \<notin> fst ` set xs]"
  using fold_delete_if [of "\<lambda>_. True" xs c] by simp

lemma enforce_cache:
  assumes d: "distinct (map fst (editorCache f))"
  shows "set (editorCache (enforceMaxCacheSize f)) \<subseteq> set (editorCache f)"
    and "distinct (map fst (editorCache (enforceMaxCacheSize f)))"
    and "length (editorCache (enforceMaxCacheSize f)) = min (length (editorCache f)) cacheMaxSize"
    and "\<forall>r \<in> set (editorCache f) - set (editorCache (enforceMaxCacheSize f)).
         \<forall>k \<in> set (editorCache (enforceMaxCacheSize f)).
           lastAnalyzed (snd r) \<le> lastAnalyzed (snd k)"
proof -
  let ?c = "editorCache f"
  let ?key = "\<lambda>(u, e). lastAnalyzed (e :: EditorCacheEntry)"
  let ?s = "sort_key ?key ?c"
  let ?n = "length ?c - cacheMaxSize"
  let ?rm = "take ?n ?s"
  let ?c' = "editorCache (enforceMaxCacheSize f)"
  have dc: "distinct ?c" using d by (simp add: distinct_map)
  have c': "?c' = (if length ?c \<le> cacheMaxSize then ?c else [kv \<leftarrow> ?c. fst kv \<notin> fst ` set ?rm])"
    by (simp add: enforceMaxCacheSize_def Let_def fold_delete_keys)
  have rm_sub: "set ?rm \<subseteq> set ?c" using set_take_subset [of ?n ?s] by simp
  have key_iff: "fst kv \<in> fst ` set ?rm \<longleftrightarrow> kv \<in> set ?rm" if "kv \<in> set ?c" for kv
  proof
    assume "fst kv \<in> fst ` set ?rm"
    then obtain x where x: "x \<in> set ?rm" "fst x = fst kv" by auto
    with rm_sub have "x \<in> set ?c" by auto
    then have "snd x = snd kv"
      using distinct_fst_eq [OF d, of "fst kv" "snd x" "snd kv"] x that by (metis prod.collapse)
    with x show "kv \<in> set ?rm" by (metis prod.collapse)
  qed auto
  have filt: "[kv \<leftarrow> ?c. fst kv \<notin> fst ` set ?rm] = [kv \<leftarrow> ?c. kv \<notin> set ?rm]"
    by (rule filter_cong [OF refl]) (simp add: key_iff)
  show "set ?c' \<subseteq> set ?c" unfolding c' by auto
  show "distinct (map fst ?c')" unfolding c' using d by (simp add: distinct_map_filter)
  show "length ?c' = min (length ?c) cacheMaxSize"
  proof (cases "length ?c \<le> cacheMaxSize")
    case True
    then show ?thesis unfolding c' by simp
  next
    case False
    have drm: "distinct ?rm" using dc by simp
    have lrm: "length ?rm = ?n" by simp
    have "length [kv \<leftarrow> ?c. kv \<notin> set ?rm] = card ({x. x \<notin> set ?rm} \<inter> set ?c)"
      using dc by (rule distinct_length_filter)
    also have "{x. x \<notin> set ?rm} \<inter> set ?c = set ?c - set ?rm" by auto
    also have "card (set ?c - set ?rm) = card (set ?c) - card (set ?rm)"
      using rm_sub by (simp add: card_Diff_subset)
    also have "\<dots> = length ?c - ?n"
      using dc drm lrm by (simp add: distinct_card)
    finally show ?thesis using False unfolding c' filt by simp
  qed
  show "\<forall>r \<in> set ?c - set ?c'. \<forall>k \<in> set ?c'. lastAnalyzed (snd r) \<le> lastAnalyzed (snd k)"
  proof (cases "length ?c \<le> cacheMaxSize")
    case True
    then show ?thesis unfolding c' by simp
  next
    case False
    have srt: "sorted (map ?key (take ?n ?s @ drop ?n ?s))" by simp
    have ord: "\<forall>x \<in> set (take ?n ?s). \<forall>y \<in> set (drop ?n ?s). ?key x \<le> ?key y"
      using srt unfolding map_append sorted_append by auto
    have split: "set ?c = set (take ?n ?s) \<union> set (drop ?n ?s)"
      using set_append [of "take ?n ?s" "drop ?n ?s"] by simp
    show ?thesis
    proof (intro ballI)
      fix r k assume r: "r \<in> set ?c - set ?c'" and k: "k \<in> set ?c'"
      from r False have "r \<in> set ?rm" unfolding c' filt by auto
      moreover from k False have "k \<in> set ?c" "k \<notin> set ?rm" unfolding c' filt by auto
      then have "k \<in> set (drop ?n ?s)" using split by auto
      ultimately have "?key r \<le> ?key k" using ord by blast
      then show "lastAnalyzed (snd r) \<le> lastAnalyzed (snd k)" by (simp add: case_prod_beta)
    qed
  qed
qed

lemma enforce_other_fields:
  "regex (enforceMaxCacheSize f) = regex f"
  "activeEditors (enforceMaxCacheSize f) = activeEditors f"
  by (simp_all add: enforceMaxCacheSize_def Let_def)

lemma gcaoc_hit:
  assumes "map_of (editorCache (cleanupExpiredCache now f)) (doc_uri (document ei)) = Some e"
      and "isCacheValid md5 now e (document ei) (Some (metaData ei))"
  shows "getCachedAnalysisOrCompute md5 now ei f = (e, cleanupExpiredCache now f)"
  using assms by (simp add: getCachedAnalysisOrCompute_def Let_def)

lemma computeAnalysis_regex:
  "regex f' = regex f \<Longrightarrow> computeAnalysis md5 now ei f' = computeAnalysis md5 now ei f"
  "regex f' = regex f \<Longrightarrow> computeOptimizedAnalysis md5 now ei f' = computeOptimizedAnalysis md5 now ei f"
  unfolding computeAnalysis_def computeOptimizedAnalysis_def by (erule ssubst, rule refl)+

lemma freshEntry_regex: "regex f' = regex f \<Longrightarrow> freshEntry md5 now ei f' = freshEntry md5 now ei f"
  unfolding freshEntry_def by (simp only: computeAnalysis_regex [of f' f])

lemma gcaoc_miss:
  assumes "\<not> (\<exists>e. map_of (editorCache (cleanupExpiredCache now f)) (doc_uri (document ei)) = Some e
               \<and> isCacheValid md5 now e (document ei) (Some (metaData ei)))"
  shows "getCachedAnalysisOrCompute md5 now ei f =
           (freshEntry md5 now ei f,
            enforceMaxCacheSize ((cleanupExpiredCache now f)
              \<lparr>editorCache := AList.update (doc_uri (document ei)) (freshEntry md5 now ei f)
                                (editorCache (cleanupExpiredCache now f))\<rparr>))"
proof -
  have r: "freshEntry md5 now ei (cleanupExpiredCache now f) = freshEntry md5 now ei f"
    by (rule freshEntry_regex) (simp add: cleanup_other_fields)
  have "getCachedAnalysisOrCompute md5 now ei f =
           (freshEntry md5 now ei (cleanupExpiredCache now f),
            enforceMaxCacheSize ((cleanupExpiredCache now f)
              \<lparr>editorCache := AList.update (doc_uri (document ei))
                                (freshEntry md5 now ei (cleanupExpiredCache now f))
                                (editorCache (cleanupExpiredCache now f))\<rparr>))"
    using assms
    by (auto simp: getCachedAnalysisOrCompute_def Let_def freshEntry_def split: option.splits)
  then show ?thesis by (simp only: r)
qed

lemma freshEntry_fields:
  "matchedLineNumbers (freshEntry md5 now ei f) = spec_matchedLines (regex f) (getText (document ei))"
  "count (freshEntry md5 now ei f) = length (spec_matchedLines (regex f) (getText (document ei)))"
  "contentHash (freshEntry md5 now ei f) = md5 (getText (document ei))"
  "size_bytes (freshEntry md5 now ei f) = byteLength (getText (document ei))"
  "version (freshEntry md5 now ei f) = doc_version (document ei)"
  "lastAnalyzed (freshEntry md5 now ei f) = now"
  by (simp_all add: freshEntry_def computeOptimizedAnalysis_eq matchedLineNumbers_computeAnalysis
      count_computeAnalysis, simp_all add: computeAnalysis_def Let_def split: prod.splits)

lemma entryOf_freshEntry: "entryOf md5 (regex f) (freshEntry md5 now ei f)"
  unfolding entryOf_def by (rule exI [of _ "getText (document ei)"]) (simp add: freshEntry_fields)

lemma cacheInv_cong:
  "editorCache f' = editorCache f \<Longrightarrow> regex f' = regex f \<Longrightarrow> cacheInv md5 f' = cacheInv md5 f"
  by (simp add: cacheInv_def)

lemma cacheInv_subset:
  assumes "cacheInv md5 f" and "regex f' = regex f"
      and "set (editorCache f') \<subseteq> set (editorCache f)"
      and "distinct (map fst (editorCache f'))"
      and "length (editorCache f') \<le> length (editorCache f)"
  shows "cacheInv md5 f'"
proof -
  from assms(1) have l: "length (editorCache f) \<le> cacheMaxSize"
    and e: "\<forall>kv \<in> set (editorCache f). entryOf md5 (regex f) (snd kv)"
    by (simp_all add: cacheInv_def)
  from l assms(5) have "length (editorCache f') \<le> cacheMaxSize" by simp
  moreover from e assms(2,3) have "\<forall>kv \<in> set (editorCache f'). entryOf md5 (regex f') (snd kv)"
    by auto
  ultimately show ?thesis using assms(4) by (simp add: cacheInv_def)
qed

lemma cacheInv_cleanup:
  assumes "cacheInv md5 f"
  shows "cacheInv md5 (cleanupExpiredCache now f)"
proof -
  from assms have d: "distinct (map fst (editorCache f))" by (simp add: cacheInv_def)
  note c = cleanup_filter [OF d, of now]
  show ?thesis
  proof (rule cacheInv_subset [OF assms])
    show "regex (cleanupExpiredCache now f) = regex f" by (simp add: cleanup_other_fields)
    show "set (editorCache (cleanupExpiredCache now f)) \<subseteq> set (editorCache f)"
      unfolding c by auto
    show "distinct (map fst (editorCache (cleanupExpiredCache now f)))"
      unfolding c using d by (simp add: distinct_map_filter)
    show "length (editorCache (cleanupExpiredCache now f)) \<le> length (editorCache f)"
      unfolding c by (rule length_filter_le)
  qed
qed

lemma set_update_cases:
  "kv \<in> set (AList.update k v al) \<Longrightarrow> kv = (k, v) \<or> kv \<in> set al"
  by (induction al) (auto split: if_splits)

lemma length_update_le: "length (AList.update k v al) \<le> Suc (length al)"
  by (induction al) auto

lemma cacheInv_gcaoc:
  assumes inv: "cacheInv md5 f"
  shows "cacheInv md5 (snd (getCachedAnalysisOrCompute md5 now ei f))"
proof (cases "\<exists>e. map_of (editorCache (cleanupExpiredCache now f)) (doc_uri (document ei)) = Some e
               \<and> isCacheValid md5 now e (document ei) (Some (metaData ei))")
  case True
  then obtain e where "getCachedAnalysisOrCompute md5 now ei f = (e, cleanupExpiredCache now f)"
    using gcaoc_hit by blast
  then show ?thesis using cacheInv_cleanup [OF inv] by simp
next
  case False
  let ?f1 = "cleanupExpiredCache now f"
  let ?c1 = "AList.update (doc_uri (document ei)) (freshEntry md5 now ei f) (editorCache ?f1)"
  let ?f2 = "?f1\<lparr>editorCache := ?c1\<rparr>"
  from cacheInv_cleanup [OF inv] have i1: "cacheInv md5 ?f1" .
  then have d1: "distinct (map fst (editorCache ?f1))" and l1: "length (editorCache ?f1) \<le> cacheMaxSize"
    and e1: "\<forall>kv \<in> set (editorCache ?f1). entryOf md5 (regex f) (snd kv)"
    by (simp_all add: cacheInv_def cleanup_other_fields)
  have d2: "distinct (map fst (editorCache ?f2))" using d1 by (simp add: distinct_update)
  have e2: "\<forall>kv \<in> set (editorCache ?f2). entryOf md5 (regex f) (snd kv)"
  proof
    fix kv assume "kv \<in> set (editorCache ?f2)"
    then have "kv = (doc_uri (document ei), freshEntry md5 now ei f) \<or> kv \<in> set (editorCache ?f1)"
      using set_update_cases by fastforce
    then show "entryOf md5 (regex f) (snd kv)"
      using e1 entryOf_freshEntry [of md5 f now ei] by auto
  qed
  note en = enforce_cache [OF d2]
  have r: "regex (enforceMaxCacheSize ?f2) = regex f"
    by (simp add: enforce_other_fields cleanup_other_fields)
  have "length (editorCache (enforceMaxCacheSize ?f2)) \<le> cacheMaxSize"
    unfolding en(3) by simp
  moreover have "\<forall>kv \<in> set (editorCache (enforceMaxCacheSize ?f2)). entryOf md5 (regex f) (snd kv)"
    using en(1) e2 by blast
  ultimately have "cacheInv md5 (enforceMaxCacheSize ?f2)"
    unfolding cacheInv_def r using en(2) by simp
  then show ?thesis using gcaoc_miss [OF False] by simp
qed

lemma gcaoc_other_fields:
  "regex (snd (getCachedAnalysisOrCompute md5 now ei f)) = regex f"
  "activeEditors (snd (getCachedAnalysisOrCompute md5 now ei f)) = activeEditors f"
proof -
  have "regex (snd (getCachedAnalysisOrCompute md5 now ei f)) = regex f
      \<and> activeEditors (snd (getCachedAnalysisOrCompute md5 now ei f)) = activeEditors f"
  proof (cases "\<exists>e. map_of (editorCache (cleanupExpiredCache now f)) (doc_uri (document ei)) = Some e
               \<and> isCacheValid md5 now e (document ei) (Some (metaData ei))")
    case True
    then obtain e where "getCachedAnalysisOrCompute md5 now ei f = (e, cleanupExpiredCache now f)"
      using gcaoc_hit by blast
    then show ?thesis by (simp add: cleanup_other_fields)
  next
    case False
    show ?thesis unfolding gcaoc_miss [OF False]
      by (simp add: enforce_other_fields cleanup_other_fields)
  qed
  then show "regex (snd (getCachedAnalysisOrCompute md5 now ei f)) = regex f"
    and "activeEditors (snd (getCachedAnalysisOrCompute md5 now ei f)) = activeEditors f"
    by simp_all
qed

lemma processEditor_cache:
  "editorCache (processEditor md5 now ei f) =
     editorCache (snd (getCachedAnalysisOrCompute md5 now ei
       (f\<lparr>activeEditors := AList.update (ei_uri ei) ei (activeEditors f)\<rparr>)))"
  "regex (processEditor md5 now ei f) = regex f"
  by (simp_all add: processEditor_def Let_def case_prod_beta gcaoc_other_fields)

lemma cacheInv_processEditor:
  assumes "cacheInv md5 f"
  shows "cacheInv md5 (processEditor md5 now ei f)"
proof -
  let ?f1 = "f\<lparr>activeEditors := AList.update (ei_uri ei) ei (activeEditors f)\<rparr>"
  have "cacheInv md5 ?f1" using assms by (simp add: cacheInv_def)
  from cacheInv_gcaoc [OF this, of now ei]
  have "cacheInv md5 (snd (getCachedAnalysisOrCompute md5 now ei ?f1))" .
  moreover have "regex (snd (getCachedAnalysisOrCompute md5 now ei ?f1)) = regex f"
    by (simp add: gcaoc_other_fields)
  ultimately show ?thesis
    using cacheInv_cong [of "processEditor md5 now ei f" "snd (getCachedAnalysisOrCompute md5 now ei ?f1)" md5]
    by (simp add: processEditor_cache)
qed

lemma cacheInv_getMatchedLineNumbersOf:
  assumes "cacheInv md5 f"
  shows "cacheInv md5 (snd (getMatchedLineNumbersOf md5 now u f))"
proof (cases "map_of (activeEditors f) u")
  case None
  then show ?thesis using assms by (simp add: getMatchedLineNumbersOf_def)
next
  case (Some ei)
  have "snd (getMatchedLineNumbersOf md5 now u f) = f
      \<or> snd (getMatchedLineNumbersOf md5 now u f) = snd (getCachedAnalysisOrCompute md5 now ei f)"
    using Some by (simp add: getMatchedLineNumbersOf_def Let_def split: option.splits prod.splits)
  then show ?thesis using assms cacheInv_gcaoc [OF assms, of now ei] by auto
qed

lemma cacheInv_getMatchedLineNumbers_all:
  "cacheInv md5 f \<Longrightarrow> cacheInv md5 (snd (getMatchedLineNumbers_all md5 now us acc f))"
proof (induction us arbitrary: acc f)
  case Nil
  then show ?case by simp
next
  case (Cons u us)
  obtain ns f' where g: "getMatchedLineNumbersOf md5 now u f = (ns, f')"
    by (cases "getMatchedLineNumbersOf md5 now u f")
  from cacheInv_getMatchedLineNumbersOf [OF Cons.prems, of now u] g have "cacheInv md5 f'" by simp
  from Cons.IH [OF this, of "acc @ ns"] g show ?case by simp
qed

lemma cacheInv_getMatchedLineNumbers:
  "cacheInv md5 f \<Longrightarrow> cacheInv md5 (snd (getMatchedLineNumbers md5 now u f))"
  by (cases u) (simp_all add: getMatchedLineNumbers_def cacheInv_getMatchedLineNumbersOf
      cacheInv_getMatchedLineNumbers_all)

lemma cacheInv_clearCache:
  assumes "cacheInv md5 f"
  shows "cacheInv md5 (clearCache u f)"
proof (cases u)
  case None
  then show ?thesis by (simp add: clearCache_def cacheInv_def)
next
  case (Some k)
  from assms have d: "distinct (map fst (editorCache f))" by (simp add: cacheInv_def)
  have c: "editorCache (clearCache u f) = AList.delete k (editorCache f)"
    using Some by (simp add: clearCache_def)
  show ?thesis
  proof (rule cacheInv_subset [OF assms])
    show "regex (clearCache u f) = regex f" using Some by (simp add: clearCache_def)
    show "set (editorCache (clearCache u f)) \<subseteq> set (editorCache f)"
      unfolding c by (auto simp: AList.delete_eq)
    show "distinct (map fst (editorCache (clearCache u f)))"
      unfolding c using d by (rule distinct_delete)
    show "length (editorCache (clearCache u f)) \<le> length (editorCache f)"
      unfolding c by (rule length_delete_le)
  qed
qed

lemma cacheInv_clearProcessing: "cacheInv md5 f \<Longrightarrow> cacheInv md5 (clearProcessing u f)"
  by (cases u) (simp_all add: clearProcessing_def cacheInv_def)

lemma reachable_cacheInv: "reachable md5 f \<Longrightarrow> cacheInv md5 f"
proof (induction rule: reachable.induct)
  case (r_new r fid)
  then show ?case by (simp add: newFilter_def cacheInv_def)
next
  case (r_processEditor f now ei)
  then show ?case by (simp add: cacheInv_processEditor)
next
  case (r_getMatchedLineNumbers f now u)
  then show ?case by (simp add: cacheInv_getMatchedLineNumbers)
next
  case (r_setRegex f r)
  then show ?case by (simp add: setRegex_def clearCache_def cacheInv_def)
next
  case (r_set_isHighlighted f v)
  then show ?case by (simp add: set_isHighlighted_def cacheInv_def)
next
  case (r_set_isShown f v)
  then show ?case by (simp add: set_isShown_def cacheInv_def)
next
  case (r_set_isExclude f v)
  then show ?case by (simp add: set_isExclude_def cacheInv_def)
next
  case (r_clearProcessing f u)
  then show ?case by (simp add: cacheInv_clearProcessing)
next
  case (r_removeEditor f k)
  then show ?case by (simp add: removeEditor_def cacheInv_clearCache cacheInv_clearProcessing)
next
  case (r_clearCache f u)
  then show ?case by (simp add: cacheInv_clearCache)
next
  case (r_dispose f)
  then show ?case by (simp add: dispose_def cacheInv_clearCache cacheInv_clearProcessing)
next
  case (r_hostEdit f aes)
  then show ?case by (simp add: cacheInv_def)
qed



lemma reachable_fold_processEditor:
  "reachable md5 f \<Longrightarrow> reachable md5 (fold (\<lambda>i f. processEditor md5 (t i) (e i) f) xs f)"
  by (induction xs arbitrary: f) (simp_all add: reachable.r_processEditor)









text \<open>
  C5 as stated fails: the sweep does not halve the TTL for an entry captured in large-file
  mode. An entry stored at time 0 by a call flagged \<open>isLargeFile\<close> is still in the cache
  after the sweep at time 200000, although 200000 exceeds half the TTL (150000); a call for
  another document at that time leaves it there too.
\<close>

theorem sweep_keeps_large_entry_past_half_ttl:
  "isLargeFile (metaData example_large_editor)
   \<and> map_option lastAnalyzed (map_of (editorCache example_large_cached) ''big.log'') = Some 0
   \<and> cacheMaxAge div 2 < 200000 - 0
   \<and> map_option lastAnalyzed
        (map_of (editorCache (cleanupExpiredCache 200000 example_large_cached)) ''big.log'') = Some 0
   \<and> map_option lastAnalyzed
        (map_of (editorCache (snd (getCachedAnalysisOrCompute example_md5 200000 example_editor
                                     example_large_cached))) ''big.log'') = Some 0"
  by code_simp

text \<open>
  C5, amended. The sweep at the start of \<open>getCachedAnalysisOrCompute\<close> keeps exactly the
  entries whose age is at most the full TTL, whatever mode they were captured in: the call
  behaves as on the swept cache, and no entry older than the TTL is left after it. The halved
  TTL acts in the validity check only: an entry of the requested document older than the TTL
  of the current mode is not served but recomputed.
\<close>

theorem sweep_uses_full_ttl:
  assumes d: "distinct (map fst (editorCache f))"
  shows "editorCache (cleanupExpiredCache now f) =
           [kv \<leftarrow> editorCache f. now - lastAnalyzed (snd kv) \<le> cacheMaxAge]
       \<and> getCachedAnalysisOrCompute md5 now ei f =
           getCachedAnalysisOrCompute md5 now ei (cleanupExpiredCache now f)
       \<and> (\<forall>kv \<in> set (editorCache (snd (getCachedAnalysisOrCompute md5 now ei f))).
             now - lastAnalyzed (snd kv) \<le> cacheMaxAge)
       \<and> (\<forall>e. map_of (editorCache f) (doc_uri (document ei)) = Some e
               \<and> now - lastAnalyzed e > (if isLargeFile (metaData ei) then cacheMaxAge div 2 else cacheMaxAge)
            \<longrightarrow> fst (getCachedAnalysisOrCompute md5 now ei f) = freshEntry md5 now ei f)"
proof -
  let ?f1 = "cleanupExpiredCache now f"
  let ?u = "doc_uri (document ei)"
  note c = cleanup_filter [OF d, of now]
  have d1: "distinct (map fst (editorCache ?f1))"
    unfolding c using d by (simp add: distinct_map_filter)
  have idem: "cleanupExpiredCache now ?f1 = ?f1"
  proof -
    have "editorCache (cleanupExpiredCache now ?f1) = editorCache ?f1"
      unfolding cleanup_filter [OF d1] unfolding c by simp
    then show ?thesis
      by (simp add: cleanupExpiredCache_def)
  qed
  have same: "getCachedAnalysisOrCompute md5 now ei f = getCachedAnalysisOrCompute md5 now ei ?f1"
    unfolding getCachedAnalysisOrCompute_def Let_def idem
    by (simp add: computeAnalysis_regex [of ?f1 f] cleanup_other_fields)
  have young1: "\<forall>kv \<in> set (editorCache ?f1). now - lastAnalyzed (snd kv) \<le> cacheMaxAge"
    unfolding c by simp
  have young: "\<forall>kv \<in> set (editorCache (snd (getCachedAnalysisOrCompute md5 now ei f))).
             now - lastAnalyzed (snd kv) \<le> cacheMaxAge"
  proof (cases "\<exists>e. map_of (editorCache ?f1) ?u = Some e
               \<and> isCacheValid md5 now e (document ei) (Some (metaData ei))")
    case True
    then obtain e where "getCachedAnalysisOrCompute md5 now ei f = (e, ?f1)"
      using gcaoc_hit by blast
    then show ?thesis using young1 by simp
  next
    case False
    let ?f2 = "?f1\<lparr>editorCache := AList.update ?u (freshEntry md5 now ei f) (editorCache ?f1)\<rparr>"
    have d2: "distinct (map fst (editorCache ?f2))" using d1 by (simp add: distinct_update)
    have "\<forall>kv \<in> set (editorCache ?f2). now - lastAnalyzed (snd kv) \<le> cacheMaxAge"
    proof
      fix kv assume "kv \<in> set (editorCache ?f2)"
      then have "kv = (?u, freshEntry md5 now ei f) \<or> kv \<in> set (editorCache ?f1)"
        using set_update_cases by fastforce
      then show "now - lastAnalyzed (snd kv) \<le> cacheMaxAge"
        using young1 by (auto simp: freshEntry_fields cacheMaxAge_def)
    qed
    with enforce_cache(1) [OF d2] show ?thesis
      unfolding gcaoc_miss [OF False] by auto
  qed
  have expiry: "fst (getCachedAnalysisOrCompute md5 now ei f) = freshEntry md5 now ei f"
    if l: "map_of (editorCache f) ?u = Some e"
    and old: "now - lastAnalyzed e > (if isLargeFile (metaData ei) then cacheMaxAge div 2 else cacheMaxAge)"
    for e
  proof -
    have "\<not> (\<exists>e'. map_of (editorCache ?f1) ?u = Some e'
               \<and> isCacheValid md5 now e' (document ei) (Some (metaData ei)))"
    proof
      assume "\<exists>e'. map_of (editorCache ?f1) ?u = Some e'
               \<and> isCacheValid md5 now e' (document ei) (Some (metaData ei))"
      then obtain e' where e': "map_of (editorCache ?f1) ?u = Some e'"
        and valid: "isCacheValid md5 now e' (document ei) (Some (metaData ei))" by blast
      from e' have "(?u, e') \<in> set (editorCache ?f1)" by (rule map_of_SomeD)
      then have "(?u, e') \<in> set (editorCache f)" unfolding c by simp
      moreover from l have "(?u, e) \<in> set (editorCache f)" by (rule map_of_SomeD)
      ultimately have "e' = e" using distinct_fst_eq [OF d] by blast
      with valid old show False
        by (simp add: isCacheValid_def Let_def split: if_splits)
    qed
    from gcaoc_miss [OF this] show ?thesis by simp
  qed
  show ?thesis using c same young expiry by blast
qed

theorem sweep_uses_full_ttl_witness:
  "map fst (editorCache (cleanupExpiredCache 200000 example_large_cached)) = [''big.log'']
   \<and> map fst (editorCache (cleanupExpiredCache 300001 example_large_cached)) = []
   \<and> map_option lastAnalyzed (map_of (editorCache example_large_cached) ''big.log'') = Some 0
   \<and> fst (getCachedAnalysisOrCompute example_md5 200000 example_large_editor example_large_cached)
       = freshEntry example_md5 200000 example_large_editor example_large_cached
   \<and> lastAnalyzed (fst (getCachedAnalysisOrCompute example_md5 200000 example_large_editor
                           example_large_cached)) = 200000"
proof -
  have d: "distinct (map fst (editorCache example_large_cached))" by code_simp
  have e: "map fst (editorCache (cleanupExpiredCache 200000 example_large_cached)) = [''big.log'']"
          "map fst (editorCache (cleanupExpiredCache 300001 example_large_cached)) = []"
          "map_option lastAnalyzed (map_of (editorCache example_large_cached) ''big.log'') = Some 0"
    by code_simp+
  obtain e0 where l: "map_of (editorCache example_large_cached) (doc_uri (document example_large_editor)) = Some e0"
    and a: "lastAnalyzed e0 = 0"
    using e(3) by (auto simp: example_large_editor_def)
  have old: "200000 - lastAnalyzed e0
      > (if isLargeFile (metaData example_large_editor) then cacheMaxAge div 2 else cacheMaxAge)"
    unfolding a by (simp add: example_large_editor_def cacheMaxAge_def)
  from sweep_uses_full_ttl [OF d, of 200000 example_md5 example_large_editor] l old
  have f: "fst (getCachedAnalysisOrCompute example_md5 200000 example_large_editor example_large_cached)
       = freshEntry example_md5 200000 example_large_editor example_large_cached"
    by blast
  show ?thesis using e f by (simp add: freshEntry_fields)
qed

text \<open>
  C6. After \<open>getCachedAnalysisOrCompute\<close>, in a state the filter's operations can produce,
  the cache holds at most 10 entries. The entries left are taken from the cache before
  eviction, as many as fit; every evicted entry has a capture timestamp no later than that of
  every entry left.
\<close>

theorem cache_capacity_and_eviction:
  assumes reach: "reachable md5 f"
  shows "length (editorCache (snd (getCachedAnalysisOrCompute md5 now ei f))) \<le> 10
       \<and> set (editorCache (snd (getCachedAnalysisOrCompute md5 now ei f)))
           \<subseteq> set (cacheBeforeEviction md5 now ei f)
       \<and> length (editorCache (snd (getCachedAnalysisOrCompute md5 now ei f)))
           = min (length (cacheBeforeEviction md5 now ei f)) 10
       \<and> (\<forall>r \<in> set (cacheBeforeEviction md5 now ei f)
                  - set (editorCache (snd (getCachedAnalysisOrCompute md5 now ei f))).
            \<forall>k \<in> set (editorCache (snd (getCachedAnalysisOrCompute md5 now ei f))).
              lastAnalyzed (snd r) \<le> lastAnalyzed (snd k))"
proof -
  let ?f1 = "cleanupExpiredCache now f"
  let ?u = "doc_uri (document ei)"
  from reachable_cacheInv [OF reach] have inv: "cacheInv md5 f" .
  from cacheInv_gcaoc [OF inv, of now ei]
  have le: "length (editorCache (snd (getCachedAnalysisOrCompute md5 now ei f))) \<le> 10"
    by (simp add: cacheInv_def cacheMaxSize_def)
  from cacheInv_cleanup [OF inv, of now]
  have d1: "distinct (map fst (editorCache ?f1))" and l1: "length (editorCache ?f1) \<le> 10"
    by (simp_all add: cacheInv_def cacheMaxSize_def)
  show ?thesis
  proof (cases "\<exists>e. map_of (editorCache ?f1) ?u = Some e
               \<and> isCacheValid md5 now e (document ei) (Some (metaData ei))")
    case True
    then obtain e where e: "map_of (editorCache ?f1) ?u = Some e"
      and g: "getCachedAnalysisOrCompute md5 now ei f = (e, ?f1)"
      using gcaoc_hit by blast
    have "cacheBeforeEviction md5 now ei f = editorCache ?f1"
      unfolding cacheBeforeEviction_def g using e by (simp add: update_triv)
    then show ?thesis using g l1 by simp
  next
    case False
    let ?f2 = "?f1\<lparr>editorCache := AList.update ?u (freshEntry md5 now ei f) (editorCache ?f1)\<rparr>"
    note g = gcaoc_miss [OF False]
    have d2: "distinct (map fst (editorCache ?f2))" using d1 by (simp add: distinct_update)
    have b: "cacheBeforeEviction md5 now ei f = editorCache ?f2"
      unfolding cacheBeforeEviction_def g by simp
    have a: "editorCache (snd (getCachedAnalysisOrCompute md5 now ei f)) = editorCache (enforceMaxCacheSize ?f2)"
      unfolding g by simp
    from enforce_cache [OF d2] le show ?thesis
      unfolding a b by (simp add: cacheMaxSize_def)
  qed
qed

text \<open>Eleven documents processed at the times 0 to 10: the one processed at time 0 is evicted.\<close>

theorem cache_capacity_and_eviction_witness:
  "length (editorCache (example_filled 10)) = 10
   \<and> map (\<lambda>kv. (length (fst kv), lastAnalyzed (snd kv)))
        (editorCache (snd (getCachedAnalysisOrCompute example_md5 10 (example_editor_n 10) (example_filled 10))))
      = [(2, 1), (3, 2), (4, 3), (5, 4), (6, 5), (7, 6), (8, 7), (9, 8), (10, 9), (11, 10)]
   \<and> length (cacheBeforeEviction example_md5 10 (example_editor_n 10) (example_filled 10)) = 11"
proof -
  have reach: "reachable example_md5 (example_filled 10)"
    unfolding example_filled_def by (rule reachable_fold_processEditor) (rule reachable.r_new)
  have e: "length (editorCache (example_filled 10)) = 10"
    "map (\<lambda>kv. (length (fst kv), lastAnalyzed (snd kv)))
        (editorCache (snd (getCachedAnalysisOrCompute example_md5 10 (example_editor_n 10) (example_filled 10))))
      = [(2, 1), (3, 2), (4, 3), (5, 4), (6, 5), (7, 6), (8, 7), (9, 8), (10, 9), (11, 10)]"
    "length (cacheBeforeEviction example_md5 10 (example_editor_n 10) (example_filled 10)) = 11"
    by code_simp+
  from cache_capacity_and_eviction [OF reach, of 10 "example_editor_n 10"] e show ?thesis by simp
qed

text \<open>
  C7. \<open>setRegex\<close> empties the cache, installs the new pattern and increments the pattern
  version. A query that follows, \<open>getMatchedLineNumbers\<close> for any document or
  \<open>getCachedAnalysisOrCompute\<close>, returns the scan under the new pattern. At any later time
  too, every cached entry is a scan under the filter's current pattern.
\<close>

theorem setRegex_invalidates_cache:
  "editorCache (setRegex r f) = []
   \<and> regexVersion (setRegex r f) = regexVersion f + 1
   \<and> regex (setRegex r f) = r
   \<and> fst (getMatchedLineNumbers md5 now (Some u) (setRegex r f)) =
       (case map_of (activeEditors f) u of
          None \<Rightarrow> []
        | Some ei \<Rightarrow> spec_matchedLines r (getText (document ei)))
   \<and> matchedLineNumbers (fst (getCachedAnalysisOrCompute md5 now ei (setRegex r f))) =
       spec_matchedLines r (getText (document ei))
   \<and> (reachable md5 f \<longrightarrow>
        (\<forall>kv \<in> set (editorCache f).
           \<exists>t. contentHash (snd kv) = md5 t
              \<and> matchedLineNumbers (snd kv) = spec_matchedLines (regex f) t))"
proof -
  let ?g = "setRegex r f"
  have c: "editorCache ?g = []" and rv: "regexVersion ?g = regexVersion f + 1"
    and rg: "regex ?g = r" and ae: "activeEditors ?g = activeEditors f"
    by (simp_all add: setRegex_def clearCache_def)
  have c1: "editorCache (cleanupExpiredCache now ?g) = []"
    by (simp add: cleanupExpiredCache_def c)
  have miss: "fst (getCachedAnalysisOrCompute md5 now ei' ?g) = freshEntry md5 now ei' ?g" for ei'
  proof -
    have "\<not> (\<exists>e. map_of (editorCache (cleanupExpiredCache now ?g)) (doc_uri (document ei')) = Some e
               \<and> isCacheValid md5 now e (document ei') (Some (metaData ei')))"
      by (simp add: c1)
    from gcaoc_miss [OF this] show ?thesis by simp
  qed
  have q: "matchedLineNumbers (fst (getCachedAnalysisOrCompute md5 now ei' ?g)) =
       spec_matchedLines r (getText (document ei'))" for ei'
    by (simp add: miss freshEntry_fields rg)
  have gm: "fst (getMatchedLineNumbers md5 now (Some u) ?g) =
       (case map_of (activeEditors f) u of
          None \<Rightarrow> []
        | Some ei \<Rightarrow> spec_matchedLines r (getText (document ei)))"
    using q by (simp add: getMatchedLineNumbers_def getMatchedLineNumbersOf_def c ae Let_def
        case_prod_beta split: option.splits)
  have inv: "\<forall>kv \<in> set (editorCache f).
           \<exists>t. contentHash (snd kv) = md5 t
              \<and> matchedLineNumbers (snd kv) = spec_matchedLines (regex f) t" if "reachable md5 f"
    using reachable_cacheInv [OF that] by (auto simp: cacheInv_def entryOf_def)
  show ?thesis using c rv rg gm q inv by blast
qed

theorem setRegex_invalidates_cache_witness:
  "fst (getMatchedLineNumbers example_md5 1000 (Some ''a.log'') example_include) = [1]
   \<and> fst (getMatchedLineNumbers example_md5 1000 (Some ''a.log'') (setRegex (literal ''a'') example_include))
       = [1, 2]
   \<and> regexVersion (setRegex (literal ''a'') example_include) = 1
   \<and> editorCache (setRegex (literal ''a'') example_include) = []
   \<and> map (\<lambda>kv. matchedLineNumbers (snd kv)) (editorCache example_include) = [[1]]"
proof -
  have reach: "reachable example_md5 example_include"
    unfolding example_include_def by (intro reachable.intros)
  have e: "fst (getMatchedLineNumbers example_md5 1000 (Some ''a.log'') example_include) = [1]"
    "spec_matchedLines (literal ''a'') (getText (document example_editor)) = [1, 2]"
    "map_of (activeEditors example_include) ''a.log'' = Some example_editor"
    "regexVersion example_include = 0"
    "map (\<lambda>kv. matchedLineNumbers (snd kv)) (editorCache example_include) = [[1]]"
    by code_simp+
  note t = setRegex_invalidates_cache [of "literal ''a''" example_include example_md5 1000 "''a.log''" example_editor]
  from t reach have "\<forall>kv \<in> set (editorCache example_include).
           \<exists>t. contentHash (snd kv) = example_md5 t
              \<and> matchedLineNumbers (snd kv) = spec_matchedLines (regex example_include) t"
    by blast
  with t e show ?thesis by simp
qed

section \<open>The visible lines of the focus view\<close>

lemma getActiveFilters_fold:
  "fold (\<lambda>(k, flt) (positiveFilters, excludeFilters).
                  if isShown flt then
                    (if isExclude flt then (positiveFilters, excludeFilters @ [k])
                     else (positiveFilters @ [k], excludeFilters))
                  else (positiveFilters, excludeFilters)) kfs (ps, es)
   = (ps @ map fst [kf \<leftarrow> kfs. isPositive (snd kf)], es @ map fst [kf \<leftarrow> kfs. isNegative (snd kf)])"
  by (induction kfs arbitrary: ps es) (auto simp: isPositive_def isNegative_def)

lemma getActiveFilters_eq:
  "getActiveFilters fp =
     (map fst [kf \<leftarrow> store_of fp. isPositive (snd kf)], map fst [kf \<leftarrow> store_of fp. isNegative (snd kf)])"
  by (simp add: getActiveFilters_def store_of_def getActiveFilters_fold split: option.splits)

lemma set_fold_set_add: "set (fold set_add xs s) = set xs \<union> set s"
  by (induction xs arbitrary: s) (auto simp: set_add_def)

lemma distinct_fold_set_add: "distinct s \<Longrightarrow> distinct (fold set_add xs s)"
  by (induction xs arbitrary: s) (auto simp: set_add_def)

lemma fold_set_add_upt: "fold set_add [0 ..< n] [] = [0 ..< n]"
proof (induction n)
  case 0
  then show ?case by simp
next
  case (Suc n)
  then show ?case by (simp add: set_add_def)
qed

lemma fold_set_delete: "fold set_delete xs s = [x \<leftarrow> s. x \<notin> set xs]"
proof (induction xs arbitrary: s)
  case Nil
  then show ?case by simp
next
  case (Cons a xs)
  have "removeAll a s = [x \<leftarrow> s. x \<noteq> a]" by (induction s) auto
  then show ?case using Cons by (auto simp: set_delete_def intro: filter_cong)
qed

lemma linesOf_update_other:
  "k' \<noteq> k \<Longrightarrow> linesOf md5 now u (AList.update k f store) k' = linesOf md5 now u store k'"
  by (simp add: linesOf_def update_conv')

lemma addPositive_fst:
  "distinct ks \<Longrightarrow>
   fst (addPositive md5 now u ks (res, store)) =
     fold set_add (concat (map (linesOf md5 now u store) ks)) res"
proof (induction ks arbitrary: res store)
  case Nil
  then show ?case by simp
next
  case (Cons k ks)
  then have d: "distinct ks" and nk: "k \<notin> set ks" by auto
  show ?case
  proof (cases "map_of store k")
    case None
    then show ?thesis using Cons.IH [OF d] by (simp add: linesOf_def)
  next
    case (Some f)
    obtain ns f' where g: "getMatchedLineNumbers md5 now (Some u) f = (ns, f')"
      by (cases "getMatchedLineNumbers md5 now (Some u) f")
    have m: "map (linesOf md5 now u (AList.update k f' store)) ks = map (linesOf md5 now u store) ks"
      using nk by (intro map_cong refl linesOf_update_other) auto
    have h: "linesOf md5 now u store k = ns"
      using Some g by (simp add: linesOf_def)
    have "fst (addPositive md5 now u (k # ks) (res, store)) =
          fst (addPositive md5 now u ks (fold set_add ns res, AList.update k f' store))"
      using Some g by simp
    also have "\<dots> = fold set_add (concat (map (linesOf md5 now u (AList.update k f' store)) ks)) (fold set_add ns res)"
      by (rule Cons.IH [OF d])
    also have "\<dots> = fold set_add (concat (map (linesOf md5 now u store) (k # ks))) res"
      unfolding m by (simp add: h)
    finally show ?thesis .
  qed
qed

lemma removeExcluded_fst:
  "distinct ks \<Longrightarrow>
   fst (removeExcluded md5 now u ks (res, store)) =
     [x \<leftarrow> res. x \<notin> set (concat (map (linesOf md5 now u store) ks))]"
proof (induction ks arbitrary: res store)
  case Nil
  then show ?case by simp
next
  case (Cons k ks)
  then have d: "distinct ks" and nk: "k \<notin> set ks" by auto
  show ?case
  proof (cases "map_of store k")
    case None
    then show ?thesis using Cons.IH [OF d] by (simp add: linesOf_def)
  next
    case (Some f)
    obtain ns f' where g: "getMatchedLineNumbers md5 now (Some u) f = (ns, f')"
      by (cases "getMatchedLineNumbers md5 now (Some u) f")
    have m: "map (linesOf md5 now u (AList.update k f' store)) ks = map (linesOf md5 now u store) ks"
      using nk by (intro map_cong refl linesOf_update_other) auto
    have h: "linesOf md5 now u store k = ns"
      using Some g by (simp add: linesOf_def)
    have "fst (removeExcluded md5 now u (k # ks) (res, store)) =
          fst (removeExcluded md5 now u ks (fold set_delete ns res, AList.update k f' store))"
      using Some g by simp
    also have "\<dots> = [x \<leftarrow> fold set_delete ns res. x \<notin> set (concat (map (linesOf md5 now u (AList.update k f' store)) ks))]"
      by (rule Cons.IH [OF d])
    also have "\<dots> = [x \<leftarrow> res. x \<notin> set (concat (map (linesOf md5 now u store) (k # ks)))]"
      unfolding m by (auto simp: h fold_set_delete intro: filter_cong)
    finally show ?thesis .
  qed
qed

lemma linesOf_union:
  assumes "distinct (map fst store)"
  shows "(\<Union>k \<in> set (map fst [kf \<leftarrow> store. P (snd kf)]). set (linesOf md5 now u store k))
       = (\<Union>kf \<in> {kf \<in> set store. P (snd kf)}. set (fst (getMatchedLineNumbers md5 now (Some u) (snd kf))))"
proof -
  have "\<And>kf. kf \<in> set store \<Longrightarrow> linesOf md5 now u store (fst kf) = fst (getMatchedLineNumbers md5 now (Some u) (snd kf))"
    using assms by (auto simp: linesOf_def)
  then show ?thesis by auto
qed

text \<open>
  C1. When the project has at least one positive filter (shown and not exclude), the visible
  lines computed by \<open>getVisibleLines\<close> are, as a set, the union of the matched line numbers
  that the positive filters report for the document, in ascending order without duplicates.
  Exclude filters do not occur in the result: they subtract nothing. The project's filter
  map has distinct keys, as every \<open>Map\<close> has.
\<close>

theorem visible_lines_positive_union:
  assumes keys: "distinct (map fst (store_of fp))"
      and pos: "\<exists>kf \<in> set (store_of fp). isShown (snd kf) \<and> \<not> isExclude (snd kf)"
  shows "set (fst (getVisibleLines md5 now fp originalUri originalDoc)) =
           (\<Union>kf \<in> {kf \<in> set (store_of fp). isShown (snd kf) \<and> \<not> isExclude (snd kf)}.
              set (fst (getMatchedLineNumbers md5 now (Some originalUri) (snd kf))))
         \<and> sorted (fst (getVisibleLines md5 now fp originalUri originalDoc))
         \<and> distinct (fst (getVisibleLines md5 now fp originalUri originalDoc))"
proof -
  let ?ps = "map fst [kf \<leftarrow> store_of fp. isPositive (snd kf)]"
  have ne: "?ps \<noteq> []" using pos by (auto simp: isPositive_def filter_empty_conv)
  have d: "distinct ?ps" using keys by (simp add: distinct_map_filter)
  have r: "fst (resultLinesOf md5 now fp originalUri originalDoc) =
             fold set_add (concat (map (linesOf md5 now originalUri (store_of fp)) ?ps)) []"
    using ne addPositive_fst [OF d] by (simp add: resultLinesOf_def getActiveFilters_eq)
  have v: "fst (getVisibleLines md5 now fp originalUri originalDoc) =
             sort (fst (resultLinesOf md5 now fp originalUri originalDoc))"
    by (simp add: getVisibleLines_def split: prod.splits)
  have "set (fst (getVisibleLines md5 now fp originalUri originalDoc)) =
          (\<Union>k \<in> set ?ps. set (linesOf md5 now originalUri (store_of fp) k))"
    unfolding v r by (simp add: set_fold_set_add)
  also have "\<dots> = (\<Union>kf \<in> {kf \<in> set (store_of fp). isPositive (snd kf)}.
              set (fst (getMatchedLineNumbers md5 now (Some originalUri) (snd kf))))"
    by (rule linesOf_union [OF keys])
  finally show ?thesis
    unfolding v r by (simp add: isPositive_def distinct_fold_set_add)
qed

text \<open>
  The example of the specification: a positive filter matching line 1 and a shown exclude
  filter matching lines 1 and 2 give the visible set \<open>{1}\<close>.
\<close>

theorem visible_lines_positive_union_witness:
  "set (fst (getVisibleLines example_md5 1000 example_provider ''a.log'' example_doc)) = {1}
   \<and> fst (getMatchedLineNumbers example_md5 1000 (Some ''a.log'') example_include) = [1]
   \<and> fst (getMatchedLineNumbers example_md5 1000 (Some ''a.log'') example_exclude) = [1, 2]
   \<and> isShown example_include \<and> \<not> isExclude example_include
   \<and> isShown example_exclude \<and> isExclude example_exclude
   \<and> sorted (fst (getVisibleLines example_md5 1000 example_provider ''a.log'' example_doc))"
proof -
  have h1: "distinct (map fst (store_of example_provider))" by code_simp
  have h2: "\<exists>kf \<in> set (store_of example_provider). isShown (snd kf) \<and> \<not> isExclude (snd kf)"
    by code_simp
  have e: "fst (getVisibleLines example_md5 1000 example_provider ''a.log'' example_doc) = [1]"
          "fst (getMatchedLineNumbers example_md5 1000 (Some ''a.log'') example_include) = [1]"
          "fst (getMatchedLineNumbers example_md5 1000 (Some ''a.log'') example_exclude) = [1, 2]"
          "isShown example_include" "\<not> isExclude example_include"
          "isShown example_exclude" "isExclude example_exclude"
    by code_simp+
  show ?thesis
    using visible_lines_positive_union [OF h1 h2, of example_md5 1000 "''a.log''" example_doc] e by simp
qed

text \<open>
  C2. When no positive filter is active, the visible lines are the line numbers
  \<open>0 ..< lineCount\<close> without the lines matched by any shown exclude filter, in ascending
  order; when no filter is shown at all (or no project is bound) they are all the lines.
\<close>

theorem visible_lines_exclude_only:
  assumes keys: "distinct (map fst (store_of fp))"
      and nopos: "\<forall>kf \<in> set (store_of fp). \<not> (isShown (snd kf) \<and> \<not> isExclude (snd kf))"
  shows "fst (getVisibleLines md5 now fp originalUri originalDoc) =
           [i \<leftarrow> [0 ..< lineCount originalDoc].
              i \<notin> (\<Union>kf \<in> {kf \<in> set (store_of fp). isShown (snd kf) \<and> isExclude (snd kf)}.
                      set (fst (getMatchedLineNumbers md5 now (Some originalUri) (snd kf))))]
         \<and> sorted (fst (getVisibleLines md5 now fp originalUri originalDoc))
         \<and> ((\<forall>kf \<in> set (store_of fp). \<not> isShown (snd kf)) \<longrightarrow>
              fst (getVisibleLines md5 now fp originalUri originalDoc) = [0 ..< lineCount originalDoc])"
proof -
  let ?ps = "map fst [kf \<leftarrow> store_of fp. isPositive (snd kf)]"
  let ?es = "map fst [kf \<leftarrow> store_of fp. isNegative (snd kf)]"
  let ?X = "(\<Union>kf \<in> {kf \<in> set (store_of fp). isShown (snd kf) \<and> isExclude (snd kf)}.
                      set (fst (getMatchedLineNumbers md5 now (Some originalUri) (snd kf))))"
  have e: "?ps = []" using nopos by (auto simp: isPositive_def filter_empty_conv)
  have d: "distinct ?es" using keys by (simp add: distinct_map_filter)
  have r: "fst (resultLinesOf md5 now fp originalUri originalDoc) =
             [x \<leftarrow> [0 ..< lineCount originalDoc].
                x \<notin> set (concat (map (linesOf md5 now originalUri (store_of fp)) ?es))]"
    using e removeExcluded_fst [OF d] by (simp add: resultLinesOf_def getActiveFilters_eq fold_set_add_upt)
  have u: "set (concat (map (linesOf md5 now originalUri (store_of fp)) ?es)) = ?X"
    using linesOf_union [OF keys, where P = isNegative] by (simp add: isNegative_def)
  have v: "fst (getVisibleLines md5 now fp originalUri originalDoc) =
             sort (fst (resultLinesOf md5 now fp originalUri originalDoc))"
    by (simp add: getVisibleLines_def split: prod.splits)
  have s: "sorted [x \<leftarrow> [0 ..< lineCount originalDoc]. x \<notin> ?X]"
    by (rule sorted_wrt_filter) simp
  have main: "fst (getVisibleLines md5 now fp originalUri originalDoc) = [x \<leftarrow> [0 ..< lineCount originalDoc]. x \<notin> ?X]"
    unfolding v r u using s by (simp add: sort_key_id_if_sorted)
  have "?X = {}" if "\<forall>kf \<in> set (store_of fp). \<not> isShown (snd kf)"
    using that by auto
  then show ?thesis using main s by simp
qed

theorem visible_lines_exclude_only_witness:
  "fst (getVisibleLines example_md5 1000 example_exclude_only ''a.log'' example_doc) = [0]
   \<and> sorted (fst (getVisibleLines example_md5 1000 example_exclude_only ''a.log'' example_doc))
   \<and> fst (getVisibleLines example_md5 1000 example_all_hidden ''a.log'' example_doc) = [0, 1, 2]
   \<and> fst (getVisibleLines example_md5 1000 \<lparr>project = None\<rparr> ''a.log'' example_doc) = [0, 1, 2]"
proof -
  have h1: "distinct (map fst (store_of example_exclude_only))" by code_simp
  have h2: "\<forall>kf \<in> set (store_of example_exclude_only). \<not> (isShown (snd kf) \<and> \<not> isExclude (snd kf))"
    by code_simp
  have e1: "fst (getVisibleLines example_md5 1000 example_exclude_only ''a.log'' example_doc) = [0]"
    by code_simp
  have k1: "distinct (map fst (store_of example_all_hidden))" by code_simp
  have k2: "\<forall>kf \<in> set (store_of example_all_hidden). \<not> (isShown (snd kf) \<and> \<not> isExclude (snd kf))"
    by code_simp
  have k3: "\<forall>kf \<in> set (store_of example_all_hidden). \<not> isShown (snd kf)"
    by code_simp
  have lc: "lineCount example_doc = 3" by code_simp
  have n1: "distinct (map fst (store_of \<lparr>project = None\<rparr>))" by (simp add: store_of_def)
  have n2: "\<forall>kf \<in> set (store_of \<lparr>project = None\<rparr>). \<not> (isShown (snd kf) \<and> \<not> isExclude (snd kf))"
    by (simp add: store_of_def)
  have n3: "\<forall>kf \<in> set (store_of \<lparr>project = None\<rparr>). \<not> isShown (snd kf)"
    by (simp add: store_of_def)
  have u: "[0 ..< 3] = [0, 1, 2::nat]" by (simp add: upt_rec)
  note a = visible_lines_exclude_only [OF h1 h2, of example_md5 1000 "''a.log''" example_doc]
  note b = visible_lines_exclude_only [OF k1 k2, of example_md5 1000 "''a.log''" example_doc]
  note c = visible_lines_exclude_only [OF n1 n2, of example_md5 1000 "''a.log''" example_doc]
  have s: "sorted (fst (getVisibleLines example_md5 1000 example_exclude_only ''a.log'' example_doc))"
    using a by (rule conjunct1 [OF conjunct2])
  have b': "fst (getVisibleLines example_md5 1000 example_all_hidden ''a.log'' example_doc) = [0 ..< lineCount example_doc]"
    using b k3 by blast
  have c': "fst (getVisibleLines example_md5 1000 \<lparr>project = None\<rparr> ''a.log'' example_doc) = [0 ..< lineCount example_doc]"
    using c n3 by blast
  show ?thesis
    using e1 s b' c' unfolding lc u by simp
qed

section \<open>Projecting original lines onto the focus view\<close>

lemma indexOf_ge: "- 1 \<le> indexOf xs x"
  by (induction xs) (auto simp: Let_def)

lemma indexOf_notin: "x \<notin> set xs \<Longrightarrow> indexOf xs x = - 1"
  by (induction xs) (auto simp: Let_def)

lemma indexOf_in: "x \<in> set xs \<Longrightarrow> 0 \<le> indexOf xs x \<and> nat (indexOf xs x) < length xs \<and> xs ! nat (indexOf xs x) = x"
proof (induction xs)
  case Nil
  then show ?case by simp
next
  case (Cons y ys)
  show ?case
  proof (cases "y = x")
    case True
    then show ?thesis by simp
  next
    case False
    with Cons.prems have "x \<in> set ys" by simp
    from Cons.IH [OF this] False show ?thesis
      by (auto simp: Let_def nat_add_distrib)
  qed
qed

lemma buildFocus_fold:
  "fold (\<lambda>originalLineNum ranges.
             (let focusLineIndex = indexOf V originalLineNum in
              if focusLineIndex \<noteq> - 1
              then (let focusLineNum = nat (focusLineIndex + 1)
                    in ranges @ [Range (Position focusLineNum 0) (Position focusLineNum 0)])
              else ranges)) ms acc
   = acc @ concat (map (\<lambda>x. buildFocusDecorationRanges [x] V) ms)"
  by (induction ms arbitrary: acc) (simp_all add: buildFocusDecorationRanges_def Let_def)

text \<open>
  C8. \<open>buildFocusDecorationRanges\<close> sends an original line \<open>x\<close> that is visible to the focus
  line \<open>indexOf V x + 1\<close> and produces nothing for a line that is not visible; it treats the
  matched lines one by one. Reading the visible sequence at \<open>f - 1\<close> recovers the original
  line, so original to focus to original is the identity on the visible lines.
\<close>

theorem focus_line_mapping:
  "buildFocusDecorationRanges [x] V =
     (if x \<in> set V
      then [Range (Position (nat (indexOf V x + 1)) 0) (Position (nat (indexOf V x + 1)) 0)]
      else [])
   \<and> buildFocusDecorationRanges ms V = concat (map (\<lambda>y. buildFocusDecorationRanges [y] V) ms)
   \<and> (x \<in> set V \<longrightarrow>
        1 \<le> nat (indexOf V x + 1) \<and> nat (indexOf V x + 1) - 1 < length V
        \<and> V ! (nat (indexOf V x + 1) - 1) = x)
   \<and> (x \<notin> set V \<longrightarrow> indexOf V x = - 1)"
proof (intro conjI impI)
  show "buildFocusDecorationRanges [x] V =
     (if x \<in> set V
      then [Range (Position (nat (indexOf V x + 1)) 0) (Position (nat (indexOf V x + 1)) 0)]
      else [])"
    using indexOf_in [of x V] indexOf_notin [of x V]
    by (auto simp: buildFocusDecorationRanges_def Let_def)
  show "buildFocusDecorationRanges ms V = concat (map (\<lambda>y. buildFocusDecorationRanges [y] V) ms)"
    using buildFocus_fold [of V ms "[]"] by (simp add: buildFocusDecorationRanges_def)
next
  assume "x \<in> set V"
  from indexOf_in [OF this]
  have *: "0 \<le> indexOf V x" "nat (indexOf V x) < length V" "V ! nat (indexOf V x) = x" by auto
  have eq: "nat (indexOf V x + 1) - 1 = nat (indexOf V x)" using *(1) by simp
  show "1 \<le> nat (indexOf V x + 1)" using *(1) by simp
  show "nat (indexOf V x + 1) - 1 < length V" using * eq by simp
  show "V ! (nat (indexOf V x + 1) - 1) = x" using * eq by simp
next
  assume "x \<notin> set V" then show "indexOf V x = - 1" by (rule indexOf_notin)
qed

text \<open>For \<open>V = [2, 5, 7]\<close> every element round-trips and line 3 has no mapping.\<close>

theorem focus_line_mapping_witness:
  "buildFocusDecorationRanges [2, 5, 7] [2, 5, 7] =
     [Range (Position 1 0) (Position 1 0), Range (Position 2 0) (Position 2 0),
      Range (Position 3 0) (Position 3 0)]
   \<and> (5::nat) \<in> set [2, 5, 7] \<and> nat (indexOf [2, 5, 7] (5::nat) + 1) = 2
   \<and> [2, 5, 7] ! (nat (indexOf [2, 5, 7] (5::nat) + 1) - 1) = (5::nat)
   \<and> (3::nat) \<notin> set [2, 5, 7] \<and> buildFocusDecorationRanges [3] [2, 5, 7] = []"
  using focus_line_mapping [of 5 "[2, 5, 7]" "[2, 5, 7]"] focus_line_mapping [of 3 "[2, 5, 7]" "[]"] focus_line_mapping [of 2 "[2, 5, 7]" "[]"] focus_line_mapping [of 7 "[2, 5, 7]" "[]"]
  by (simp add: Let_def)

section \<open>Synthesizing the focus text\<close>

lemma pushLines_eq:
  "pushLines doc ns acc = Inr (acc @ map (\<lambda>n. docLines doc ! n) [n \<leftarrow> ns. n < lineCount doc])"
  by (induction ns arbitrary: acc) (simp_all add: lineAt_def)

text \<open>
  C10. \<open>generateFilteredContent\<close> never reads a line out of range: for every state of the
  filters (so for every content of their caches) it returns a text, made of the empty header
  line and the document's lines at the visible line numbers below \<open>lineCount\<close>; visible
  line numbers at or beyond \<open>lineCount\<close> are skipped.
\<close>

theorem filtered_content_in_range:
  "generateFilteredContent md5 now fp originalUri doc =
     (Inr (js_join [CHR 0x0A]
            ([] # map (\<lambda>n. docLines doc ! n)
                     [n \<leftarrow> fst (getVisibleLines md5 now fp originalUri doc). n < lineCount doc])),
      snd (getVisibleLines md5 now fp originalUri doc))"
  by (simp add: generateFilteredContent_def getVisibleLines_def pushLines_eq Let_def split: prod.splits)

text \<open>
  The positive filter of the example still answers line 1 from its editor's three-line
  document; for the document shrunk to one line the focus text is the header line alone.
\<close>

theorem filtered_content_in_range_witness:
  "fst (getVisibleLines example_md5 1000 example_provider ''a.log'' example_shrunk_doc) = [1]
   \<and> lineCount example_shrunk_doc = 1
   \<and> fst (generateFilteredContent example_md5 1000 example_provider ''a.log'' example_shrunk_doc) = Inr []"
proof -
  have v: "fst (getVisibleLines example_md5 1000 example_provider ''a.log'' example_shrunk_doc) = [1]"
    and l: "lineCount example_shrunk_doc = 1"
    by code_simp+
  from filtered_content_in_range [of example_md5 1000 example_provider "''a.log''" example_shrunk_doc]
  show ?thesis unfolding v l by simp
qed

section \<open>Invalid patterns\<close>

text \<open>
  C9. A pattern that does not compile changes nothing. \<open>addFilter\<close> fails with the
  \<open>SyntaxError\<close> of the constructor before any filter exists (or returns the state as it
  is when there is no input or no group); \<open>editFilter\<close> returns the state as it is, so
  the filter keeps its previous pattern, and shows the error.
\<close>

theorem invalid_pattern_rejected:
  assumes "compile s = None"
  shows "addFilter compile md5 now editors fid groupItemId (Some s) state =
           (if s \<noteq> [] \<and> (\<exists>p g. selectedProject state = Some p \<and> map_of (groups p) groupItemId = Some g)
            then Inl (SyntaxError s) else Inr state)
         \<and> editFilter compile md5 now editors filterItemId (Some s) state =
           (state,
            if (\<exists>p flt. selectedProject state = Some p \<and> map_of (filters p) filterItemId = Some flt
                         \<and> s \<noteq> source (regex flt))
            then Some (SyntaxError s) else None)"
  using assms
  by (auto simp: addFilter_def editFilter_def Let_def split: option.splits)

theorem invalid_pattern_rejected_witness:
  "example_compile ''('' = None
   \<and> addFilter example_compile example_md5 1000 [example_editor] ''filter-3'' ''group-1'' (Some ''('')
        example_state = Inl (SyntaxError ''('')
   \<and> editFilter example_compile example_md5 1000 [example_editor] ''filter-1'' (Some ''('')
        example_state = (example_state, Some (SyntaxError ''(''))
   \<and> map_option (\<lambda>f. source (regex f)) (map_of (filters example_project) ''filter-1'') = Some ''ab''"
proof -
  have h: "example_compile ''('' = None" by (simp add: example_compile_def)
  have g: "\<exists>p g. selectedProject example_state = Some p \<and> map_of (groups p) ''group-1'' = Some g"
    by (simp add: example_state_def example_project_def)
  have r: "regex example_include = literal ''ab''"
    by (simp add: example_include_def processEditor_def getCachedAnalysisOrCompute_def
        cleanupExpiredCache_def enforceMaxCacheSize_def newFilter_def Let_def
        split: prod.splits option.splits)
  have f: "\<exists>p flt. selectedProject example_state = Some p \<and> map_of (filters p) ''filter-1'' = Some flt
               \<and> ''('' \<noteq> source (regex flt)"
    by (simp add: example_state_def example_project_def r literal_def)
  have s: "map_option (\<lambda>f. source (regex f)) (map_of (filters example_project) ''filter-1'') = Some ''ab''"
    by (simp add: example_project_def r literal_def)
  show ?thesis
    using invalid_pattern_rejected [where compile = example_compile and s = "''(''" and groupItemId = "''group-1''"
               and filterItemId = "''filter-1''" and state = example_state and fid = "''filter-3''"
               and now = 1000 and editors = "[example_editor]" and ?md5.0 = example_md5, OF h]
          h g f s
    by simp
qed

end
